theory Spec2Isabelle
  imports Complex_Main "HOL-Library.Word"
begin

unbundle bit_operations_syntax

section \<open>Cryptonium: a shallow embedding of the digest engine and the password service\<close>

text \<open>
  The development follows the TypeScript sources file by file:
  \<^verbatim>\<open>src/algorithms/sha256.ts\<close>, \<^verbatim>\<open>src/utils/timing.ts\<close>,
  \<^verbatim>\<open>src/utils/validation.ts\<close>, \<^verbatim>\<open>src/utils/salt.ts\<close> and
  \<^verbatim>\<open>src/core/password.ts\<close>.

  A JavaScript string is a sequence of UTF-16 code units, so it is a list of 16-bit words;
  \<open>length\<close> is the \<^verbatim>\<open>.length\<close> of the source. The numbers the digest engine
  handles are made unsigned 32-bit by \<^verbatim>\<open>>>> 0\<close> after every addition; they are
  \<open>32 word\<close>. An iteration count is a JavaScript number, \<open>jsnumber\<close>. Salt and key
  lengths and clock readings are \<open>int\<close>: \<^verbatim>\<open>validateKeyLength\<close> rejects a salt length
  that is no integer, and the key length and the clock are only recorded.

  A call either returns, throws or runs forever. A function whose every loop ends has a result
  in \<open>error + 'a\<close>: \<open>Inl e\<close> is the exception \<open>e\<close>, \<open>Inr v\<close> the value returned.
  A function that runs the iteration loop has a result in \<open>(error + 'a) option\<close>, where
  \<open>None\<close> is the call that never returns.
\<close>

subsection \<open>Strings and numbers of the platform\<close>

type_synonym jsstring = "16 word list"
type_synonym u32 = "32 word"
type_synonym u8 = "8 word"

text \<open>
  A JavaScript number is an IEEE double: a finite value, which is a rational, an infinity or
  \<^verbatim>\<open>NaN\<close>. The type holds every rational, so every finite double.
\<close>

datatype jsnumber = Finite rat | PosInfinity | NegInfinity | NaN

text \<open>An ASCII literal of the source, as code units.\<close>

definition str :: "string \<Rightarrow> jsstring" where
  "str s = map (\<lambda>c. of_nat (of_char c)) s"

text \<open>\<^verbatim>\<open>x >>> 0\<close>: the conversion to an unsigned 32-bit number.\<close>

definition toUint32 :: "u32 \<Rightarrow> u32" where
  "toUint32 x = word_of_int (uint x)"

text \<open>\<^verbatim>\<open>n.toString(16)\<close> for a non-negative integer, and \<^verbatim>\<open>s.padStart(n, c)\<close>.\<close>

definition hexDigit :: "int \<Rightarrow> 16 word" where
  "hexDigit d = (if d < 10 then word_of_int (48 + d) else word_of_int (87 + d))"

function toString16 :: "int \<Rightarrow> jsstring" where
  "toString16 n = (if n < 16 then [hexDigit n] else toString16 (n div 16) @ [hexDigit (n mod 16)])"
  by pat_completeness auto
termination
  by (relation "measure nat") auto

declare toString16.simps [simp del]

definition padStart :: "nat \<Rightarrow> 16 word \<Rightarrow> jsstring \<Rightarrow> jsstring" where
  "padStart n c s = replicate (n - length s) c @ s"

text \<open>
  \<^verbatim>\<open>s.split(sep)\<close> and \<^verbatim>\<open>parts.join(sep)\<close> for a one-character separator. The
  split of the empty string is the list holding the empty string.
\<close>

fun split_str :: "16 word \<Rightarrow> jsstring \<Rightarrow> jsstring list" where
  "split_str sep [] = [[]]"
| "split_str sep (c # cs) =
     (if c = sep then [] # split_str sep cs
      else (case split_str sep cs of [] \<Rightarrow> [[c]] | p # ps \<Rightarrow> (c # p) # ps))"

fun join_str :: "16 word \<Rightarrow> jsstring list \<Rightarrow> jsstring" where
  "join_str sep [] = []"
| "join_str sep [p] = p"
| "join_str sep (p # ps) = p @ sep # join_str sep ps"

subsection \<open>\<^verbatim>\<open>src/algorithms/sha256.ts\<close>\<close>

definition rightRotate :: "u32 \<Rightarrow> nat \<Rightarrow> u32" where
  "rightRotate x n = toUint32 (drop_bit n x OR push_bit (32 - n) x)"

definition rightShift :: "u32 \<Rightarrow> nat \<Rightarrow> u32" where
  "rightShift x n = drop_bit n x"

definition K :: "u32 list" where
  "K = [
  0x428A2F98, 0x71374491, 0xB5C0FBCF, 0xE9B5DBA5, 0x3956C25B, 0x59F111F1, 0x923F82A4, 0xAB1C5ED5,
  0xD807AA98, 0x12835B01, 0x243185BE, 0x550C7DC3, 0x72BE5D74, 0x80DEB1FE, 0x9BDC06A7, 0xC19BF174,
  0xE49B69C1, 0xEFBE4786, 0x0FC19DC6, 0x240CA1CC, 0x2DE92C6F, 0x4A7484AA, 0x5CB0A9DC, 0x76F988DA,
  0x983E5152, 0xA831C66D, 0xB00327C8, 0xBF597FC7, 0xC6E00BF3, 0xD5A79147, 0x06CA6351, 0x14292967,
  0x27B70A85, 0x2E1B2138, 0x4D2C6DFC, 0x53380D13, 0x650A7354, 0x766A0ABB, 0x81C2C92E, 0x92722C85,
  0xA2BFE8A1, 0xA81A664B, 0xC24B8B70, 0xC76C51A3, 0xD192E819, 0xD6990624, 0xF40E3585, 0x106AA070,
  0x19A4C116, 0x1E376C08, 0x2748774C, 0x34B0BCB5, 0x391C0CB3, 0x4ED8AA4A, 0x5B9CCA4F, 0x682E6FF3,
  0x748F82EE, 0x78A5636F, 0x84C87814, 0x8CC70208, 0x90BEFFFA, 0xA4506CEB, 0xBEF9A3F7, 0xC67178F2]"

definition H0 :: "u32 list" where
  "H0 = [0x6a09e667, 0xbb67ae85, 0x3c6ef372, 0xa54ff53a,
         0x510e527f, 0x9b05688c, 0x1f83d9ab, 0x5be0cd19]"

text \<open>
  \<^verbatim>\<open>stringToBytes\<close>. The loop reads one code unit per turn, and two in the last branch,
  which is taken for every unit from \<open>0xd800\<close> to \<open>0xdfff\<close>. There
  \<^verbatim>\<open>charCodeAt\<close> past the end is \<^verbatim>\<open>NaN\<close>, and \<^verbatim>\<open>NaN & 0x3ff\<close> is 0.
  The bytes are stored in a \<^verbatim>\<open>Uint8Array\<close>, which keeps the low eight bits.
\<close>

definition surrogateBytes :: "u32 \<Rightarrow> u32 \<Rightarrow> u8 list" where
  "surrogateBytes char char2 =
     (let codePoint = 0x10000 + (push_bit 10 (char AND 0x3ff) OR (char2 AND 0x3ff))
      in [ucast (0xf0 OR drop_bit 18 codePoint),
          ucast (0x80 OR (drop_bit 12 codePoint AND 0x3f)),
          ucast (0x80 OR (drop_bit 6 codePoint AND 0x3f)),
          ucast (0x80 OR (codePoint AND 0x3f))])"

fun stringToBytes :: "jsstring \<Rightarrow> u8 list" where
  "stringToBytes [] = []"
| "stringToBytes (c # cs) =
     (let char = (ucast c :: u32) in
      if char < 0x80 then ucast char # stringToBytes cs
      else if char < 0x800 then
        ucast (0xc0 OR drop_bit 6 char) # ucast (0x80 OR (char AND 0x3f)) # stringToBytes cs
      else if char < 0xd800 \<or> char \<ge> 0xe000 then
        ucast (0xe0 OR drop_bit 12 char) # ucast (0x80 OR (drop_bit 6 char AND 0x3f))
          # ucast (0x80 OR (char AND 0x3f)) # stringToBytes cs
      else (case cs of
              [] \<Rightarrow> surrogateBytes char 0
            | c2 # rest \<Rightarrow> surrogateBytes char (ucast c2) @ stringToBytes rest))"

text \<open>
  \<^verbatim>\<open>stringToWords\<close>: every group of four bytes is one big-endian word; a last group of
  one to three bytes is packed the same way, so its bytes are the low bytes of the word.
\<close>

definition packWord :: "u8 list \<Rightarrow> u32" where
  "packWord bs = toUint32 (foldl (\<lambda>word byte. push_bit 8 word + ucast byte) 0 bs)"

fun bytesToWords :: "u8 list \<Rightarrow> u32 list" where
  "bytesToWords [] = []"
| "bytesToWords (b0 # b1 # b2 # b3 # rest) = packWord [b0, b1, b2, b3] # bytesToWords rest"
| "bytesToWords bs = [packWord bs]"

definition stringToWords :: "jsstring \<Rightarrow> u32 list" where
  "stringToWords s = bytesToWords (stringToBytes s)"

text \<open>\<^verbatim>\<open>while ((msgWords.length % 16) !== 14) msgWords.push(0)\<close>\<close>

function padZeros :: "u32 list \<Rightarrow> u32 list" where
  "padZeros ws = (if length ws mod 16 \<noteq> 14 then padZeros (ws @ [0]) else ws)"
  by pat_completeness auto
termination
proof (relation "measure (\<lambda>ws. 15 - Suc (length ws) mod 16)")
  show "wf (measure (\<lambda>ws::u32 list. 15 - Suc (length ws) mod 16))" by simp
next
  fix ws :: "u32 list"
  assume a: "length ws mod 16 \<noteq> 14"
  have b: "Suc (length ws) mod 16 \<noteq> 15"
    using a by (simp add: mod_Suc)
  have c: "Suc (length ws) mod 16 < 16" by simp
  have "Suc (Suc (length ws)) mod 16 = Suc (Suc (length ws) mod 16)"
    using b c by (simp add: mod_Suc)
  then show "(ws @ [0], ws) \<in> measure (\<lambda>ws. 15 - Suc (length ws) mod 16)"
    using b c by simp
qed

declare padZeros.simps [simp del]

text \<open>
  The pre-processing of \<^verbatim>\<open>sha256\<close>: the words of the message, the word
  \<open>0x80000000\<close>, zero words, and the two words of \<^verbatim>\<open>message.length * 8\<close>.
\<close>

definition paddedWords :: "jsstring \<Rightarrow> u32 list" where
  "paddedWords message =
     (let msgWords = stringToWords message;
          bitLength = int (length message) * 8
      in padZeros (msgWords @ [0x80000000])
           @ [word_of_int (bitLength div 0x100000000), toUint32 (word_of_int bitLength)])"

text \<open>\<^verbatim>\<open>xs[i] || 0\<close>: a read past the end is \<^verbatim>\<open>undefined\<close>, hence 0.\<close>

definition elemOr0 :: "u32 list \<Rightarrow> nat \<Rightarrow> u32" where
  "elemOr0 xs i = (if i < length xs then xs ! i else 0)"

definition scheduleStep :: "u32 list \<Rightarrow> nat \<Rightarrow> u32 list" where
  "scheduleStep w t =
     (let w15 = elemOr0 w (t - 15); w2 = elemOr0 w (t - 2);
          w16 = elemOr0 w (t - 16); w7 = elemOr0 w (t - 7);
          s0 = rightRotate w15 7 XOR rightRotate w15 18 XOR rightShift w15 3;
          s1 = rightRotate w2 17 XOR rightRotate w2 19 XOR rightShift w2 10
      in w[t := toUint32 (w16 + s0 + w7 + s1)])"

function scheduleLoop :: "nat \<Rightarrow> u32 list \<Rightarrow> u32 list" where
  "scheduleLoop t w = (if t < 64 then scheduleLoop (t + 1) (scheduleStep w t) else w)"
  by pat_completeness auto
termination
  by (relation "measure (\<lambda>(t, w). 64 - t)") auto

declare scheduleLoop.simps [simp del]

type_synonym regs = "u32 \<times> u32 \<times> u32 \<times> u32 \<times> u32 \<times> u32 \<times> u32 \<times> u32"

fun roundStep :: "u32 list \<Rightarrow> regs \<Rightarrow> nat \<Rightarrow> regs" where
  "roundStep w (a, b, c, d, e, f, g, h0) t =
     (let wt = elemOr0 w t; kt = elemOr0 K t;
          S1 = rightRotate e 6 XOR rightRotate e 11 XOR rightRotate e 25;
          ch = (e AND f) XOR (NOT e AND g);
          temp1 = toUint32 (h0 + S1 + ch + kt + wt);
          S0 = rightRotate a 2 XOR rightRotate a 13 XOR rightRotate a 22;
          maj = (a AND b) XOR (a AND c) XOR (b AND c);
          temp2 = toUint32 (S0 + maj)
      in (toUint32 (temp1 + temp2), a, b, c, toUint32 (d + temp1), e, f, g))"

function roundLoop :: "nat \<Rightarrow> u32 list \<Rightarrow> regs \<Rightarrow> regs" where
  "roundLoop t w r = (if t < 64 then roundLoop (t + 1) w (roundStep w r t) else r)"
  by pat_completeness auto
termination
  by (relation "measure (\<lambda>(t, w, r). 64 - t)") auto

declare roundLoop.simps [simp del]

text \<open>
  One 512-bit chunk. \<^verbatim>\<open>msgWords.slice(i, i + 16)\<close> has sixteen words, since the padded
  message has a multiple of sixteen; with the 48 zeros appended every index below 64 exists.
\<close>

definition processBlock :: "u32 list \<Rightarrow> u32 list \<Rightarrow> u32 list" where
  "processBlock h block =
     (let w = scheduleLoop 16 (block @ replicate 48 0);
          (a, b, c, d, e, f, g, h0) =
             roundLoop 0 w (elemOr0 h 0, elemOr0 h 1, elemOr0 h 2, elemOr0 h 3,
                            elemOr0 h 4, elemOr0 h 5, elemOr0 h 6, elemOr0 h 7)
      in h[0 := toUint32 (elemOr0 h 0 + a), 1 := toUint32 (elemOr0 h 1 + b),
           2 := toUint32 (elemOr0 h 2 + c), 3 := toUint32 (elemOr0 h 3 + d),
           4 := toUint32 (elemOr0 h 4 + e), 5 := toUint32 (elemOr0 h 5 + f),
           6 := toUint32 (elemOr0 h 6 + g), 7 := toUint32 (elemOr0 h 7 + h0)])"

function processBlocks :: "nat \<Rightarrow> u32 list \<Rightarrow> u32 list \<Rightarrow> u32 list" where
  "processBlocks i msgWords h =
     (if i < length msgWords
      then processBlocks (i + 16) msgWords (processBlock h (take 16 (drop i msgWords)))
      else h)"
  by pat_completeness auto
termination
  by (relation "measure (\<lambda>(i, ws, h). length ws - i)") auto

declare processBlocks.simps [simp del]

definition hex8 :: "u32 \<Rightarrow> jsstring" where
  "hex8 x = padStart 8 0x30 (toString16 (uint x))"

definition sha256 :: "jsstring \<Rightarrow> jsstring" where
  "sha256 message = concat (map hex8 (processBlocks 0 (paddedWords message) H0))"

subsection \<open>\<^verbatim>\<open>src/utils/timing.ts\<close>\<close>

text \<open>
  \<^verbatim>\<open>Buffer.from(s, 'utf8')\<close> of the Node platform: a code unit below \<open>0x80\<close> is one
  byte, one below \<open>0x800\<close> two bytes, a high surrogate followed by a low surrogate four
  bytes, a surrogate that has no partner the three bytes of U+FFFD, any other unit three bytes.
\<close>

definition isHighSurrogate :: "16 word \<Rightarrow> bool" where
  "isHighSurrogate c = (0xd800 \<le> c \<and> c \<le> 0xdbff)"

definition isLowSurrogate :: "16 word \<Rightarrow> bool" where
  "isLowSurrogate c = (0xdc00 \<le> c \<and> c \<le> 0xdfff)"

definition utf8Pair :: "16 word \<Rightarrow> 16 word \<Rightarrow> u8 list" where
  "utf8Pair hi lo =
     (let cp = (0x10000 + push_bit 10 (ucast (hi AND 0x3ff)) + ucast (lo AND 0x3ff) :: u32)
      in [ucast (0xf0 OR drop_bit 18 cp),
          ucast (0x80 OR (drop_bit 12 cp AND 0x3f)),
          ucast (0x80 OR (drop_bit 6 cp AND 0x3f)),
          ucast (0x80 OR (cp AND 0x3f))])"

definition utf8Three :: "16 word \<Rightarrow> u8 list" where
  "utf8Three c =
     [ucast (0xe0 OR drop_bit 12 c), ucast (0x80 OR (drop_bit 6 c AND 0x3f)),
      ucast (0x80 OR (c AND 0x3f))]"

fun bufferFromUtf8 :: "jsstring \<Rightarrow> u8 list" where
  "bufferFromUtf8 [] = []"
| "bufferFromUtf8 (c # cs) =
     (if c < 0x80 then ucast c # bufferFromUtf8 cs
      else if c < 0x800 then
        ucast (0xc0 OR drop_bit 6 c) # ucast (0x80 OR (c AND 0x3f)) # bufferFromUtf8 cs
      else if isHighSurrogate c then
        (case cs of
           [] \<Rightarrow> [0xef, 0xbf, 0xbd]
         | d # rest \<Rightarrow>
             if isLowSurrogate d then utf8Pair c d @ bufferFromUtf8 rest
             else [0xef, 0xbf, 0xbd] @ bufferFromUtf8 cs)
      else if isLowSurrogate c then [0xef, 0xbf, 0xbd] @ bufferFromUtf8 cs
      else utf8Three c @ bufferFromUtf8 cs)"

text \<open>\<^verbatim>\<open>i < bytes.length ? bytes[i] : 0\<close>\<close>

definition byteAt :: "u8 list \<Rightarrow> nat \<Rightarrow> u8" where
  "byteAt bytes i = (if i < length bytes then bytes ! i else 0)"

text \<open>
  The loop of \<^verbatim>\<open>timeSafeCompare\<close>. \<^verbatim>\<open>^\<close> and \<^verbatim>\<open>|=\<close> work on 32-bit integers,
  so \<open>result\<close> is a 32-bit word and the two lengths are taken modulo \<open>2 ^ 32\<close>.
\<close>

function compareLoop :: "nat \<Rightarrow> nat \<Rightarrow> u8 list \<Rightarrow> u8 list \<Rightarrow> u32 \<Rightarrow> u32" where
  "compareLoop i maxLength aBytes bBytes result =
     (if i < maxLength
      then (let aByte = byteAt aBytes i; bByte = byteAt bBytes i
            in compareLoop (i + 1) maxLength aBytes bBytes (result OR (ucast aByte XOR ucast bByte)))
      else result)"
  by pat_completeness auto
termination
  by (relation "measure (\<lambda>(i, maxLength, aBytes, bBytes, result). maxLength - i)") auto

declare compareLoop.simps [simp del]

definition timeSafeCompare :: "jsstring \<Rightarrow> jsstring \<Rightarrow> bool" where
  "timeSafeCompare a b =
     (let aBytes = bufferFromUtf8 a;
          bBytes = bufferFromUtf8 b;
          maxLength = max (length aBytes) (length bBytes);
          result = (of_nat (length aBytes) XOR of_nat (length bBytes) :: u32)
      in compareLoop 0 maxLength aBytes bBytes result = 0)"

definition constantTimeCompare :: "jsstring \<Rightarrow> jsstring \<Rightarrow> bool" where
  "constantTimeCompare a b =
     (if length a \<noteq> length b then (let unused = timeSafeCompare a a in False)
      else timeSafeCompare a b)"

subsection \<open>\<^verbatim>\<open>src/utils/validation.ts\<close>\<close>

datatype error = ValidationError string

text \<open>The decimal digits of a non-negative integer, for the messages that quote a bound.\<close>

function showInt :: "int \<Rightarrow> string" where
  "showInt n = (if n < 10 then [char_of (48 + n)] else showInt (n div 10) @ [char_of (48 + n mod 10)])"
  by pat_completeness auto
termination
  by (relation "measure nat") auto

declare showInt.simps [simp del]

definition validatePassword :: "jsstring \<Rightarrow> error + unit" where
  "validatePassword password =
     (if length password = 0 then Inl (ValidationError ''Password cannot be empty'')
      else if length password > 1024
        then Inl (ValidationError ''Password is too long (max 1024 characters)'')
      else if 0 \<in> set password
        then Inl (ValidationError ''Password cannot contain null bytes'')
      else Inr ())"

definition validateSalt :: "jsstring \<Rightarrow> nat \<Rightarrow> nat \<Rightarrow> error + unit" where
  "validateSalt salt minLength maxLength =
     (if length salt < minLength
        then Inl (ValidationError (''Salt must be at least '' @ showInt (int minLength) @ '' characters long''))
      else if length salt > maxLength
        then Inl (ValidationError (''Salt must be at most '' @ showInt (int maxLength) @ '' characters long''))
      else Inr ())"

text \<open>The character class \<^verbatim>\<open>[a-fA-F0-9]\<close>.\<close>

definition isHexChar :: "16 word \<Rightarrow> bool" where
  "isHexChar c = ((0x61 \<le> c \<and> c \<le> 0x66) \<or> (0x41 \<le> c \<and> c \<le> 0x46) \<or> (0x30 \<le> c \<and> c \<le> 0x39))"

definition validateHash :: "jsstring \<Rightarrow> error + unit" where
  "validateHash hash =
     (if length hash = 0 then Inl (ValidationError ''Hash cannot be empty'')
      else if \<not> (hash \<noteq> [] \<and> list_all isHexChar hash)
        then Inl (ValidationError ''Hash must contain only hexadecimal characters'')
      else Inr ())"

definition validateKeyLength :: "int \<Rightarrow> error + unit" where
  "validateKeyLength keyLength =
     (if keyLength < 8 then Inl (ValidationError ''Key length must be at least 8 bytes'')
      else if keyLength > 512 then Inl (ValidationError ''Key length cannot exceed 512 bytes'')
      else Inr ())"

text \<open>
  The metadata object of a stored credential, as \<^verbatim>\<open>hashPassword\<close> writes it. A field
  that is missing is \<open>None\<close>. \<^verbatim>\<open>JSON.parse\<close> belongs to the platform: it is a
  parameter \<open>parse\<close> of the functions that call it, \<open>None\<close> where it throws or where the
  text is no object.
\<close>

record metadata =
  meta_algorithm :: "jsstring option"
  meta_iterations :: "jsnumber option"
  meta_keyLength :: "int option"
  meta_timestamp :: "int option"

definition validateStoredHashFormat ::
  "(jsstring \<Rightarrow> metadata option) \<Rightarrow> jsstring \<Rightarrow> error + (jsstring \<times> jsstring \<times> metadata option)" where
  "validateStoredHashFormat parse storedHash =
     (let parts = split_str 0x3a storedHash in
      if length parts < 2
        then Inl (ValidationError
          ''Invalid stored hash format - must contain salt and hash separated by colon'')
      else
        let salt = parts ! 0; hash = parts ! 1; metadataParts = drop 2 parts in
        if salt = [] \<or> hash = []
          then Inl (ValidationError ''Invalid stored hash format - salt and hash cannot be empty'')
        else (case validateSalt salt 8 128 of Inl e \<Rightarrow> Inl e | Inr u \<Rightarrow>
              (case validateHash hash of Inl e \<Rightarrow> Inl e | Inr v \<Rightarrow>
                 Inr (salt, hash,
                      if length metadataParts > 0 then parse (join_str 0x3a metadataParts)
                      else None))))"

subsection \<open>\<^verbatim>\<open>src/utils/salt.ts\<close>\<close>

text \<open>
  \<^verbatim>\<open>crypto.randomBytes(length)\<close> gives \<open>length\<close> bytes of an entropy source, which is a
  parameter; \<^verbatim>\<open>.toString('hex')\<close> writes two lowercase digits for each byte. The fallback
  \<^verbatim>\<open>generateEnhancedRandomSalt\<close> writes \<open>length\<close> bytes the same way.
\<close>

definition randomBytes :: "(nat \<Rightarrow> u8) \<Rightarrow> nat \<Rightarrow> u8 list" where
  "randomBytes entropy n = map entropy [0..<n]"

definition byteHex :: "u8 \<Rightarrow> jsstring" where
  "byteHex b = padStart 2 0x30 (toString16 (uint b))"

definition generateCryptoSalt :: "(nat \<Rightarrow> u8) \<Rightarrow> int \<Rightarrow> error + jsstring" where
  "generateCryptoSalt entropy len =
     (case validateKeyLength len of Inl e \<Rightarrow> Inl e
      | Inr u \<Rightarrow> Inr (concat (map byteHex (randomBytes entropy (nat len)))))"

text \<open>The password service calls \<^verbatim>\<open>generateSecureSalt(length)\<close> with no options, so the
  strategy is \<^verbatim>\<open>'crypto'\<close>.\<close>

definition generateSecureSalt :: "(nat \<Rightarrow> u8) \<Rightarrow> int \<Rightarrow> error + jsstring" where
  "generateSecureSalt entropy len =
     (case validateKeyLength len of Inl e \<Rightarrow> Inl e
      | Inr u \<Rightarrow> generateCryptoSalt entropy len)"

subsection \<open>\<^verbatim>\<open>src/core/password.ts\<close>\<close>

record HashOptions =
  opt_algorithm :: "jsstring option"
  opt_saltLength :: "int option"
  opt_iterations :: "jsnumber option"
  opt_keyLength :: "int option"
  opt_encoding :: "jsstring option"
  opt_pepper :: "jsstring option"

text \<open>\<^verbatim>\<open>value || fallback\<close>: \<^verbatim>\<open>undefined\<close>, 0, \<^verbatim>\<open>NaN\<close> and the empty string are
  falsy.\<close>

definition orNum :: "int option \<Rightarrow> int \<Rightarrow> int" where
  "orNum v d = (case v of None \<Rightarrow> d | Some n \<Rightarrow> if n = 0 then d else n)"

definition orNumber :: "jsnumber option \<Rightarrow> jsnumber \<Rightarrow> jsnumber" where
  "orNumber v d = (case v of None \<Rightarrow> d | Some n \<Rightarrow> if n = Finite 0 \<or> n = NaN then d else n)"

definition orStr :: "jsstring option \<Rightarrow> jsstring \<Rightarrow> jsstring" where
  "orStr v d = (case v of None \<Rightarrow> d | Some s \<Rightarrow> if s = [] then d else s)"

text \<open>
  \<^verbatim>\<open>for (let i = 1; i < iterations; i++) hash = sha256(hash)\<close>. The counter \<open>i\<close> is a
  double that holds an integer. \<^verbatim>\<open>i < iterations\<close> compares it with the bound, and is
  false for \<^verbatim>\<open>NaN\<close>. \<^verbatim>\<open>i++\<close> adds 1 exactly as long as the counter is below
  \<open>2 ^ 53\<close>; there \<open>2 ^ 53 + 1\<close> is no double and rounds back to \<open>2 ^ 53\<close>, so the
  counter stays. The loop need not end: \<open>None\<close> is the loop that runs forever.
\<close>

definition lessThanNumber :: "int \<Rightarrow> jsnumber \<Rightarrow> bool" where
  "lessThanNumber i x =
     (case x of Finite q \<Rightarrow> of_int i < q | PosInfinity \<Rightarrow> True
      | NegInfinity \<Rightarrow> False | NaN \<Rightarrow> False)"

definition increment :: "int \<Rightarrow> int" where
  "increment i = (if i < 2 ^ 53 then i + 1 else i)"

partial_function (option) iterateHash :: "int \<Rightarrow> jsnumber \<Rightarrow> jsstring \<Rightarrow> jsstring option" where
  "iterateHash i iterations hash =
     (if lessThanNumber i iterations
      then iterateHash (increment i) iterations (sha256 hash)
      else Some hash)"

text \<open>
  \<^verbatim>\<open>hashPassword\<close>. \<^verbatim>\<open>JSON.stringify\<close> is the parameter \<open>stringify\<close>, the entropy
  source and the reading of \<^verbatim>\<open>Date.now()\<close> are parameters too. Every case of the
  \<^verbatim>\<open>switch (algorithm)\<close> is the one body under \<^verbatim>\<open>case 'sha256': default:\<close>.
\<close>

definition hashPassword ::
  "(metadata \<Rightarrow> jsstring) \<Rightarrow> (nat \<Rightarrow> u8) \<Rightarrow> int \<Rightarrow> jsstring \<Rightarrow> HashOptions
     \<Rightarrow> (error + jsstring) option" where
  "hashPassword stringify entropy now password options =
     (case validatePassword password of Inl e \<Rightarrow> Some (Inl e) | Inr u \<Rightarrow>
        let algorithm = orStr (opt_algorithm options) (str ''sha256'');
            saltLength = orNum (opt_saltLength options) 32;
            iterations = orNumber (opt_iterations options) (Finite 1);
            keyLength = orNum (opt_keyLength options) 64
        in (case generateSecureSalt entropy saltLength of Inl e \<Rightarrow> Some (Inl e) | Inr salt \<Rightarrow>
             (case iterateHash 1 iterations (sha256 (password @ salt)) of
                None \<Rightarrow> None
              | Some hash \<Rightarrow>
                  let metadata = \<lparr>meta_algorithm = Some algorithm, meta_iterations = Some iterations,
                                  meta_keyLength = Some keyLength, meta_timestamp = Some now\<rparr>
                  in Some (Inr (salt @ str '':'' @ hash @ str '':'' @ stringify metadata)))))"

record PasswordHashResult =
  phr_hash :: jsstring
  phr_salt :: jsstring
  phr_algorithm :: jsstring
  phr_iterations :: jsnumber
  phr_keyLength :: int
  phr_timestamp :: int
  phr_encoding :: jsstring
  phr_hasPepper :: bool

definition hashPasswordWithOptions ::
  "(nat \<Rightarrow> u8) \<Rightarrow> int \<Rightarrow> jsstring \<Rightarrow> HashOptions \<Rightarrow> (error + PasswordHashResult) option" where
  "hashPasswordWithOptions entropy now password options =
     (case validatePassword password of Inl e \<Rightarrow> Some (Inl e) | Inr u \<Rightarrow>
        let algorithm = orStr (opt_algorithm options) (str ''sha256'');
            saltLength = orNum (opt_saltLength options) 32;
            iterations = orNumber (opt_iterations options) (Finite 100000);
            keyLength = orNum (opt_keyLength options) 64;
            encoding = orStr (opt_encoding options) (str ''hex'');
            pepper = opt_pepper options
        in (case generateSecureSalt entropy saltLength of Inl e \<Rightarrow> Some (Inl e) | Inr salt \<Rightarrow>
             let input = (case pepper of None \<Rightarrow> password @ salt
                          | Some pp \<Rightarrow> if pp = [] then password @ salt else password @ salt @ pp)
             in (case iterateHash 1 iterations (sha256 input) of
                   None \<Rightarrow> None
                 | Some hash \<Rightarrow>
                     Some (Inr \<lparr>phr_hash = hash, phr_salt = salt, phr_algorithm = algorithm,
                       phr_iterations = iterations, phr_keyLength = keyLength,
                       phr_timestamp = now, phr_encoding = encoding,
                       phr_hasPepper = (case pepper of None \<Rightarrow> False | Some pp \<Rightarrow> pp \<noteq> [])\<rparr>))))"

text \<open>\<^verbatim>\<open>metadata?.iterations\<close> and \<^verbatim>\<open>metadata?.algorithm\<close>\<close>

definition metadataIterations :: "metadata option \<Rightarrow> jsnumber option" where
  "metadataIterations metadata = (case metadata of None \<Rightarrow> None | Some m \<Rightarrow> meta_iterations m)"

definition metadataAlgorithm :: "metadata option \<Rightarrow> jsstring option" where
  "metadataAlgorithm metadata = (case metadata of None \<Rightarrow> None | Some m \<Rightarrow> meta_algorithm m)"

text \<open>The statements inside the \<^verbatim>\<open>try\<close> of \<^verbatim>\<open>verifyPassword\<close>, then the function
  with its \<^verbatim>\<open>catch\<close>, which has nothing to catch while the loop runs.\<close>

definition verifyPasswordTry ::
  "(jsstring \<Rightarrow> metadata option) \<Rightarrow> jsstring \<Rightarrow> jsstring \<Rightarrow> (error + bool) option" where
  "verifyPasswordTry parse password storedHash =
     (case validatePassword password of Inl e \<Rightarrow> Some (Inl e) | Inr u \<Rightarrow>
      (case validateStoredHashFormat parse storedHash of Inl e \<Rightarrow> Some (Inl e)
       | Inr (salt, hash, metadata) \<Rightarrow>
           let iterations = orNumber (metadataIterations metadata) (Finite 1)
           in (case iterateHash 1 iterations (sha256 (password @ salt)) of
                 None \<Rightarrow> None
               | Some computedHash \<Rightarrow> Some (Inr (timeSafeCompare computedHash hash)))))"

definition verifyPassword ::
  "(jsstring \<Rightarrow> metadata option) \<Rightarrow> jsstring \<Rightarrow> jsstring \<Rightarrow> (error + bool) option" where
  "verifyPassword parse password storedHash =
     (case verifyPasswordTry parse password storedHash of
        None \<Rightarrow> None
      | Some (Inl e) \<Rightarrow> Some (Inr False)
      | Some (Inr b) \<Rightarrow> Some (Inr b))"

datatype VerificationMetadata =
  Verified (vm_iterations: jsnumber) (vm_secureComparison: bool)
| Failed (vm_error: string)

record VerificationResult =
  isValid :: bool
  vr_algorithm :: jsstring
  timeTaken :: int
  vr_metadata :: VerificationMetadata

text \<open>\<^verbatim>\<open>verifyPasswordSecure\<close>; \<open>startTime\<close> and \<open>endTime\<close> are its two readings
  of the clock. A rejected promise would be \<open>Some (Inl e)\<close>, a promise that never settles is
  \<open>None\<close>.\<close>

definition verifyPasswordSecureTry ::
  "(jsstring \<Rightarrow> metadata option) \<Rightarrow> int \<Rightarrow> int \<Rightarrow> jsstring \<Rightarrow> jsstring
     \<Rightarrow> (error + VerificationResult) option" where
  "verifyPasswordSecureTry parse startTime endTime password storedHash =
     (case validatePassword password of Inl e \<Rightarrow> Some (Inl e) | Inr u \<Rightarrow>
      (case validateStoredHashFormat parse storedHash of Inl e \<Rightarrow> Some (Inl e)
       | Inr (salt, hash, metadata) \<Rightarrow>
           let algorithm = orStr (metadataAlgorithm metadata) (str ''sha256'');
               iterations = orNumber (metadataIterations metadata) (Finite 1)
           in (case iterateHash 1 iterations (sha256 (password @ salt)) of
                 None \<Rightarrow> None
               | Some computedHash \<Rightarrow>
                   let isValid = timeSafeCompare computedHash hash;
                       timeTaken = endTime - startTime
                   in Some (Inr \<lparr>isValid = isValid, vr_algorithm = algorithm,
                                 timeTaken = timeTaken,
                                 vr_metadata = Verified iterations True\<rparr>))))"

definition verifyPasswordSecure ::
  "(jsstring \<Rightarrow> metadata option) \<Rightarrow> int \<Rightarrow> int \<Rightarrow> jsstring \<Rightarrow> jsstring
     \<Rightarrow> (error + VerificationResult) option" where
  "verifyPasswordSecure parse startTime endTime password storedHash =
     (case verifyPasswordSecureTry parse startTime endTime password storedHash of
        None \<Rightarrow> None
      | Some (Inr r) \<Rightarrow> Some (Inr r)
      | Some (Inl (ValidationError message)) \<Rightarrow>
          Some (Inr \<lparr>isValid = False, vr_algorithm = str ''sha256'',
                      timeTaken = endTime - startTime, vr_metadata = Failed message\<rparr>))"

text \<open>\<^verbatim>\<open>upgradePasswordHash\<close>: \<open>Some (Inr None)\<close> is the promise resolved with
  \<^verbatim>\<open>null\<close>.\<close>

definition upgradePasswordHash ::
  "(jsstring \<Rightarrow> metadata option) \<Rightarrow> (metadata \<Rightarrow> jsstring) \<Rightarrow> (nat \<Rightarrow> u8) \<Rightarrow> int \<Rightarrow> int \<Rightarrow> int
     \<Rightarrow> jsstring \<Rightarrow> jsstring \<Rightarrow> HashOptions \<Rightarrow> (error + jsstring option) option" where
  "upgradePasswordHash parse stringify entropy startTime endTime now password oldStoredHash newOptions =
     (case verifyPasswordSecure parse startTime endTime password oldStoredHash of
        None \<Rightarrow> None
      | Some (Inl e) \<Rightarrow> Some (Inl e)
      | Some (Inr verification) \<Rightarrow>
          if \<not> isValid verification then Some (Inr None)
          else (case hashPassword stringify entropy now password newOptions of
                  None \<Rightarrow> None
                | Some (Inl e) \<Rightarrow> Some (Inl e)
                | Some (Inr newHash) \<Rightarrow> Some (Inr (Some newHash))))"

subsection \<open>Predicates used in the statements\<close>

text \<open>A lowercase hexadecimal digit, \<^verbatim>\<open>[0-9a-f]\<close>.\<close>

definition isLowerHexChar :: "16 word \<Rightarrow> bool" where
  "isLowerHexChar c = ((0x30 \<le> c \<and> c \<le> 0x39) \<or> (0x61 \<le> c \<and> c \<le> 0x66))"

text \<open>
  The number of UTF-16 code units that a UTF-8 byte sequence stands for, read off the lead
  bytes: a lead byte of a one-, two- or three-byte sequence is one unit, the lead byte of a
  four-byte sequence is a surrogate pair.
\<close>

fun utf16Units :: "u8 list \<Rightarrow> nat" where
  "utf16Units [] = 0"
| "utf16Units (b # bs) =
     (if \<not> bit b 7 then 1 + utf16Units bs
      else if \<not> bit b 5 then 1 + utf16Units (drop 1 bs)
      else if \<not> bit b 4 then 1 + utf16Units (drop 2 bs)
      else 2 + utf16Units (drop 3 bs))"

text \<open>
  The comparison as the specification words it: start from the exclusive-or of the two
  lengths, for every \<open>i\<close> below the larger length take in the exclusive-or of the two
  bytes at \<open>i\<close> (0 where a sequence has ended), and answer whether the result is 0.
\<close>

definition compareSpec :: "u8 list \<Rightarrow> u8 list \<Rightarrow> bool" where
  "compareSpec a b =
     (foldl (\<lambda>result i. result OR (ucast (byteAt a i) XOR ucast (byteAt b i)))
        (of_nat (length a) XOR of_nat (length b))
        [0..<max (length a) (length b)] = (0 :: u32))"

text \<open>
  The salt that \<^verbatim>\<open>hashPassword\<close> obtains for a salt length, and the metadata object it
  writes for its options, with the defaults of the source filled in.
\<close>

definition producedSalt :: "(nat \<Rightarrow> u8) \<Rightarrow> int \<Rightarrow> jsstring" where
  "producedSalt entropy saltLength = concat (map byteHex (randomBytes entropy (nat saltLength)))"

definition producedMetadata :: "int \<Rightarrow> HashOptions \<Rightarrow> metadata" where
  "producedMetadata now options =
     \<lparr>meta_algorithm = Some (orStr (opt_algorithm options) (str ''sha256'')),
      meta_iterations = Some (orNumber (opt_iterations options) (Finite 1)),
      meta_keyLength = Some (orNum (opt_keyLength options) 64),
      meta_timestamp = Some now\<rparr>"

text \<open>The options object \<^verbatim>\<open>{}\<close>, every option left to its default.\<close>

definition defaultOptions :: HashOptions where
  "defaultOptions =
     \<lparr>opt_algorithm = None, opt_saltLength = None, opt_iterations = None,
      opt_keyLength = None, opt_encoding = None, opt_pepper = None\<rparr>"

text \<open>
  The message schedule and the compression rounds as recurrences: \<open>wAt block t\<close> is the
  word \<open>w[t]\<close> that the schedule loop leaves for a sixteen-word block, and
  \<open>regsAt w r t\<close> are the eight working variables after \<open>t\<close> rounds. The loops of the
  source are proved equal to them, and a digest is then computed one word at a time.
\<close>

function wAt :: "u32 list \<Rightarrow> nat \<Rightarrow> u32" where
  "wAt block t =
     (if t < 16 then elemOr0 block t
      else (let w15 = wAt block (t - 15); w2 = wAt block (t - 2);
                w16 = wAt block (t - 16); w7 = wAt block (t - 7);
                s0 = rightRotate w15 7 XOR rightRotate w15 18 XOR rightShift w15 3;
                s1 = rightRotate w2 17 XOR rightRotate w2 19 XOR rightShift w2 10
            in toUint32 (w16 + s0 + w7 + s1)))"
  by pat_completeness auto
termination
  by (relation "measure (\<lambda>(block, t). t)") auto

declare wAt.simps [simp del]

primrec regsAt :: "u32 list \<Rightarrow> regs \<Rightarrow> nat \<Rightarrow> regs" where
  "regsAt w r 0 = r"
| "regsAt w r (Suc t) = roundStep w (regsAt w r t) t"

definition partialSchedule :: "u32 list \<Rightarrow> nat \<Rightarrow> u32 list" where
  "partialSchedule block t = map (\<lambda>i. if i < t then wAt block i else 0) [0..<64]"

text \<open>The working variables after \<open>t\<close> rounds on the first chunk of a message.\<close>

definition roundsOf :: "jsstring \<Rightarrow> nat \<Rightarrow> regs" where
  "roundsOf message t =
     regsAt (map (wAt (paddedWords message)) [0..<64])
       (elemOr0 H0 0, elemOr0 H0 1, elemOr0 H0 2, elemOr0 H0 3,
        elemOr0 H0 4, elemOr0 H0 5, elemOr0 H0 6, elemOr0 H0 7) t"

text \<open>
  The bounds that the iteration loop reaches: every number but those above \<open>2 ^ 53\<close>.
  \<open>storedIterations\<close> is the bound that verification takes from a stored text, 1 where the
  text is rejected before the loop.
\<close>

definition loopEnds :: "jsnumber \<Rightarrow> bool" where
  "loopEnds x =
     (case x of Finite q \<Rightarrow> q \<le> 2 ^ 53 | PosInfinity \<Rightarrow> False
      | NegInfinity \<Rightarrow> True | NaN \<Rightarrow> True)"


subsection \<open>A JSON codec for metadata objects\<close>

text \<open>
  The theorems below hold for every \<open>parse\<close> and \<open>stringify\<close> that invert each other
  on the metadata object. This codec is one such pair, used where a statement is evaluated on
  concrete inputs: it writes and reads objects whose members are strings without escapes and
  integers, with no white space; an iteration count that is no integer is written \<^verbatim>\<open>null\<close>.
\<close>

datatype jsonValue = JString jsstring | JNumber int

definition jsonNumber :: "int \<Rightarrow> jsstring" where
  "jsonNumber n = (if n < 0 then str ''-'' @ str (showInt (- n)) else str (showInt n))"

definition jsonIterations :: "jsnumber \<Rightarrow> jsstring" where
  "jsonIterations x =
     (case x of
        Finite q \<Rightarrow> if q = of_int \<lfloor>q\<rfloor> then jsonNumber \<lfloor>q\<rfloor> else str ''null''
      | PosInfinity \<Rightarrow> str ''null'' | NegInfinity \<Rightarrow> str ''null'' | NaN \<Rightarrow> str ''null'')"

definition jsonMember :: "string \<Rightarrow> jsstring option \<Rightarrow> jsstring list" where
  "jsonMember key v = (case v of None \<Rightarrow> [] | Some text \<Rightarrow> [str ''\"'' @ str key @ str ''\":'' @ text])"

definition demoStringify :: "metadata \<Rightarrow> jsstring" where
  "demoStringify m =
     str ''{'' @
     join_str 0x2c
       (jsonMember ''algorithm'' (map_option (\<lambda>a. str ''\"'' @ a @ str ''\"'') (meta_algorithm m)) @
        jsonMember ''iterations'' (map_option jsonIterations (meta_iterations m)) @
        jsonMember ''keyLength'' (map_option jsonNumber (meta_keyLength m)) @
        jsonMember ''timestamp'' (map_option jsonNumber (meta_timestamp m)))
     @ str ''}''"

definition isDigit :: "16 word \<Rightarrow> bool" where
  "isDigit c = (0x30 \<le> c \<and> c \<le> 0x39)"

definition digitsValue :: "jsstring \<Rightarrow> int" where
  "digitsValue ds = foldl (\<lambda>acc c. acc * 10 + (uint c - 48)) 0 ds"

definition parseNumber :: "jsstring \<Rightarrow> (jsonValue \<times> jsstring) option" where
  "parseNumber s =
     (let negative = (s \<noteq> [] \<and> hd s = 0x2d);
          body = (if negative then tl s else s);
          ds = takeWhile isDigit body
      in if ds = [] then None
         else Some (JNumber (if negative then - digitsValue ds else digitsValue ds),
                    dropWhile isDigit body))"

definition parseString :: "jsstring \<Rightarrow> (jsstring \<times> jsstring) option" where
  "parseString s =
     (case s of
        [] \<Rightarrow> None
      | c # cs \<Rightarrow>
          if c \<noteq> 0x22 then None
          else (let text = takeWhile (\<lambda>x. x \<noteq> 0x22) cs; rest = dropWhile (\<lambda>x. x \<noteq> 0x22) cs
                in if rest = [] \<or> 0x5c \<in> set text then None else Some (text, tl rest)))"

definition parseValue :: "jsstring \<Rightarrow> (jsonValue \<times> jsstring) option" where
  "parseValue s =
     (if s \<noteq> [] \<and> hd s = 0x22
      then (case parseString s of None \<Rightarrow> None | Some (text, rest) \<Rightarrow> Some (JString text, rest))
      else parseNumber s)"

fun parseMembers :: "nat \<Rightarrow> jsstring \<Rightarrow> (jsstring \<times> jsonValue) list option" where
  "parseMembers 0 s = None"
| "parseMembers (Suc fuel) s =
     (case parseString s of
        None \<Rightarrow> None
      | Some (key, afterKey) \<Rightarrow>
          (case afterKey of
             [] \<Rightarrow> None
           | colon # afterColon \<Rightarrow>
               if colon \<noteq> 0x3a then None
               else (case parseValue afterColon of
                       None \<Rightarrow> None
                     | Some (v, afterValue) \<Rightarrow>
                         if afterValue = str ''}'' then Some [(key, v)]
                         else (case afterValue of
                                 [] \<Rightarrow> None
                               | comma # others \<Rightarrow>
                                   if comma \<noteq> 0x2c then None
                                   else map_option (\<lambda>kvs. (key, v) # kvs) (parseMembers fuel others)))))"

definition memberString :: "(jsstring \<times> jsonValue) list \<Rightarrow> string \<Rightarrow> jsstring option" where
  "memberString kvs key = (case map_of kvs (str key) of Some (JString text) \<Rightarrow> Some text | _ \<Rightarrow> None)"

definition memberNumber :: "(jsstring \<times> jsonValue) list \<Rightarrow> string \<Rightarrow> int option" where
  "memberNumber kvs key = (case map_of kvs (str key) of Some (JNumber n) \<Rightarrow> Some n | _ \<Rightarrow> None)"

definition demoParse :: "jsstring \<Rightarrow> metadata option" where
  "demoParse s =
     (case s of
        [] \<Rightarrow> None
      | c # cs \<Rightarrow>
          if c \<noteq> 0x7b then None
          else if cs = str ''}'' then
            Some \<lparr>meta_algorithm = None, meta_iterations = None,
                  meta_keyLength = None, meta_timestamp = None\<rparr>
          else (case parseMembers (length cs) cs of
                  None \<Rightarrow> None
                | Some kvs \<Rightarrow>
                    Some \<lparr>meta_algorithm = memberString kvs ''algorithm'',
                          meta_iterations = map_option (\<lambda>n. Finite (of_int n)) (memberNumber kvs ''iterations''),
                          meta_keyLength = memberNumber kvs ''keyLength'',
                          meta_timestamp = memberNumber kvs ''timestamp''\<rparr>))"

section \<open>Properties\<close>

subsection \<open>The digest is 64 lowercase hexadecimal characters\<close>

lemma toUint32_id: "toUint32 x = x"
  by (simp add: toUint32_def)

lemma hexDigit_lower: "0 \<le> d \<Longrightarrow> d < 16 \<Longrightarrow> isLowerHexChar (hexDigit d)"
proof -
  assume "0 \<le> d" "d < 16"
  then have "d = 0 \<or> d = 1 \<or> d = 2 \<or> d = 3 \<or> d = 4 \<or> d = 5 \<or> d = 6 \<or> d = 7 \<or> d = 8
      \<or> d = 9 \<or> d = 10 \<or> d = 11 \<or> d = 12 \<or> d = 13 \<or> d = 14 \<or> d = 15"
    by presburger
  then show ?thesis
    by (elim disjE) (simp_all add: hexDigit_def isLowerHexChar_def)
qed

lemma toString16_lower: "0 \<le> n \<Longrightarrow> list_all isLowerHexChar (toString16 n)"
proof (induction n rule: toString16.induct)
  case (1 n)
  show ?case
  proof (cases "n < 16")
    case True
    with 1 show ?thesis by (subst toString16.simps) (simp add: hexDigit_lower)
  next
    case False
    with 1 have "list_all isLowerHexChar (toString16 (n div 16))" by simp
    moreover have "isLowerHexChar (hexDigit (n mod 16))"
      by (rule hexDigit_lower) simp_all
    ultimately show ?thesis using False by (subst toString16.simps) simp
  qed
qed

lemma toString16_length: "0 \<le> n \<Longrightarrow> n < 16 ^ k \<Longrightarrow> 0 < k \<Longrightarrow> length (toString16 n) \<le> k"
proof (induction n arbitrary: k rule: toString16.induct)
  case (1 n)
  show ?case
  proof (cases "n < 16")
    case True
    with 1 show ?thesis by (subst toString16.simps) simp
  next
    case False
    obtain j where k: "k = Suc j" using 1(4) by (cases k) auto
    have j: "0 < j" using False 1(3) k by (cases j) auto
    have "n < 16 * 16 ^ j" using 1(3) k by simp
    then have "n div 16 < 16 ^ j" by linarith
    moreover have "0 \<le> n div 16" using 1(2) by simp
    ultimately have "length (toString16 (n div 16)) \<le> j"
      using 1(1)[OF False] j by simp
    then show ?thesis using False k by (subst toString16.simps) simp
  qed
qed

lemma hex8_length: "length (hex8 x) = 8"
proof -
  have "uint x < 16 ^ 8" using uint_lt2p[of x] by simp
  then have "length (toString16 (uint x)) \<le> 8"
    by (intro toString16_length) simp_all
  then show ?thesis by (simp add: hex8_def padStart_def)
qed

lemma replicate_zero_lower: "list_all isLowerHexChar (replicate n 0x30)"
  by (induction n) (simp_all add: isLowerHexChar_def)

lemma hex8_lower: "list_all isLowerHexChar (hex8 x)"
  by (simp add: hex8_def padStart_def toString16_lower replicate_zero_lower)

lemma processBlock_length: "length (processBlock h block) = length h"
  by (simp add: processBlock_def Let_def split: prod.splits)

lemma processBlocks_length: "length (processBlocks i ws h) = length h"
proof (induction i ws h rule: processBlocks.induct)
  case (1 i msgWords h)
  then show ?case
    by (subst processBlocks.simps) (simp add: processBlock_length)
qed

lemma concat_hex8_length: "length (concat (map hex8 hs)) = 8 * length hs"
  by (induction hs) (simp_all add: hex8_length)

lemma concat_hex8_lower: "list_all isLowerHexChar (concat (map hex8 hs))"
  by (induction hs) (simp_all add: hex8_lower)

lemma sha256_length: "length (sha256 m) = 64"
  by (simp add: sha256_def concat_hex8_length processBlocks_length H0_def)

lemma sha256_lower: "list_all isLowerHexChar (sha256 m)"
  by (simp add: sha256_def concat_hex8_lower)

subsection \<open>Splitting and joining; the comparison loop\<close>

lemma split_str_nonempty: "split_str sep s \<noteq> []"
  by (induction s) (auto split: list.splits)

lemma split_str_no_sep: "sep \<notin> set s \<Longrightarrow> split_str sep s = [s]"
  by (induction s) auto

lemma split_str_append: "sep \<notin> set a \<Longrightarrow> split_str sep (a @ sep # b) = a # split_str sep b"
  by (induction a) auto

lemma join_split_str: "join_str sep (split_str sep s) = s"
proof (induction s)
  case Nil
  show ?case by simp
next
  case (Cons c cs)
  obtain p ps where ps: "split_str sep cs = p # ps"
    using split_str_nonempty[of sep cs] by (cases "split_str sep cs") auto
  show ?case
  proof (cases "c = sep")
    case True
    with Cons ps show ?thesis by simp
  next
    case False
    with Cons ps show ?thesis by (cases ps) auto
  qed
qed

lemma word_or_eq_0: "(x OR y = 0) = (x = 0 \<and> y = (0::'a::len word))"
  by (auto simp: bit_eq_iff bit_or_iff)

lemma word_xor_eq_0: "(x XOR y = 0) = (x = (y::'a::len word))"
  by (auto simp: bit_eq_iff bit_xor_iff)

lemma ucast_8_32_eq: "((ucast (x::u8) :: u32) = ucast (y::u8)) = (x = y)"
proof
  assume "(ucast x :: u32) = ucast y"
  then have "uint (ucast x :: u32) = uint (ucast y :: u32)" by simp
  then have "uint x = uint y" by (simp add: uint_up_ucast is_up)
  then show "x = y" by (rule word_uint_eqI)
qed simp

lemma all_from_split:
  fixes i m :: nat
  assumes "i < m"
  shows "(\<forall>j. i \<le> j \<and> j < m \<longrightarrow> P j) = (P i \<and> (\<forall>j. Suc i \<le> j \<and> j < m \<longrightarrow> P j))"
proof
  assume a: "\<forall>j. i \<le> j \<and> j < m \<longrightarrow> P j"
  have "P i" using a assms by simp
  moreover have "\<forall>j. Suc i \<le> j \<and> j < m \<longrightarrow> P j" using a by simp
  ultimately show "P i \<and> (\<forall>j. Suc i \<le> j \<and> j < m \<longrightarrow> P j)" by simp
next
  assume b: "P i \<and> (\<forall>j. Suc i \<le> j \<and> j < m \<longrightarrow> P j)"
  show "\<forall>j. i \<le> j \<and> j < m \<longrightarrow> P j"
  proof (intro allI impI)
    fix j assume c: "i \<le> j \<and> j < m"
    show "P j"
    proof (cases "j = i")
      case True
      then show ?thesis using b by simp
    next
      case False
      then have "Suc i \<le> j" using c by simp
      then show ?thesis using b c by simp
    qed
  qed
qed

lemma compareLoop_zero:
  "(compareLoop i m a b r = 0) = (r = 0 \<and> (\<forall>j. i \<le> j \<and> j < m \<longrightarrow> byteAt a j = byteAt b j))"
proof (induction i m a b r rule: compareLoop.induct)
  case (1 i maxLength aBytes bBytes result)
  show ?case
  proof (cases "i < maxLength")
    case False
    then show ?thesis by (subst compareLoop.simps) auto
  next
    case True
    have "(compareLoop i maxLength aBytes bBytes result = 0) =
          (compareLoop (i + 1) maxLength aBytes bBytes
             (result OR (ucast (byteAt aBytes i) XOR ucast (byteAt bBytes i))) = 0)"
      using True by (subst compareLoop.simps) (simp add: Let_def)
    also have "\<dots> = ((result = 0 \<and> byteAt aBytes i = byteAt bBytes i) \<and>
        (\<forall>j. i + 1 \<le> j \<and> j < maxLength \<longrightarrow> byteAt aBytes j = byteAt bBytes j))"
      using 1[OF True refl refl] by (simp add: word_or_eq_0 word_xor_eq_0 ucast_8_32_eq)
    also have "\<dots> = (result = 0 \<and> (\<forall>j. i \<le> j \<and> j < maxLength \<longrightarrow> byteAt aBytes j = byteAt bBytes j))"
      using all_from_split[OF True, of "\<lambda>j. byteAt aBytes j = byteAt bBytes j"] by auto
    finally show ?thesis .
  qed
qed

lemma byteAt_eq_imp_eq:
  assumes "length a = length b" and "\<forall>j < length a. byteAt a j = byteAt b j"
  shows "a = b"
  using assms by (auto simp: list_eq_iff_nth_eq byteAt_def)

lemma bytes_compare_iff:
  "(compareLoop 0 (max (length a) (length b)) a b r = 0) =
   (r = 0 \<and> (\<forall>j < max (length a) (length b). byteAt a j = byteAt b j))"
  by (simp add: compareLoop_zero)

lemma of_nat_xor_zero:
  assumes "m < 2 ^ 32" "n < 2 ^ 32"
  shows "((of_nat m :: u32) XOR of_nat n = 0) = (m = n)"
proof -
  have "((of_nat m :: u32) = of_nat n) = (m = n)"
    using assms by (simp add: word_of_nat_eq_iff take_bit_nat_eq_self)
  then show ?thesis by (simp add: word_xor_eq_0)
qed

lemma timeSafeCompare_iff_bytes:
  assumes "length (bufferFromUtf8 a) < 2 ^ 32" "length (bufferFromUtf8 b) < 2 ^ 32"
  shows "timeSafeCompare a b = (bufferFromUtf8 a = bufferFromUtf8 b)"
proof -
  let ?a = "bufferFromUtf8 a" and ?b = "bufferFromUtf8 b"
  have "timeSafeCompare a b =
        (length ?a = length ?b \<and> (\<forall>j < max (length ?a) (length ?b). byteAt ?a j = byteAt ?b j))"
    using assms by (simp add: timeSafeCompare_def Let_def bytes_compare_iff of_nat_xor_zero)
  also have "\<dots> = (?a = ?b)"
    using byteAt_eq_imp_eq[of ?a ?b] by auto
  finally show ?thesis .
qed

lemma timeSafeCompare_refl: "timeSafeCompare a a"
  by (simp add: timeSafeCompare_def Let_def bytes_compare_iff)

lemma timeSafeCompare_nonzero_bytes:
  assumes "0 \<notin> set (bufferFromUtf8 a)" "0 \<notin> set (bufferFromUtf8 b)"
  shows "timeSafeCompare a b = (bufferFromUtf8 a = bufferFromUtf8 b)"
proof
  let ?a = "bufferFromUtf8 a" and ?b = "bufferFromUtf8 b"
  assume "timeSafeCompare a b"
  then have eq: "\<forall>j < max (length ?a) (length ?b). byteAt ?a j = byteAt ?b j"
    by (simp add: timeSafeCompare_def Let_def bytes_compare_iff)
  have "length ?a = length ?b"
  proof (rule ccontr)
    assume ne: "length ?a \<noteq> length ?b"
    show False
    proof (cases "length ?a < length ?b")
      case True
      then have "byteAt ?a (length ?a) = byteAt ?b (length ?a)" using eq by simp
      then have "?b ! length ?a = 0" using True by (simp add: byteAt_def)
      then show False using assms(2) True by (metis nth_mem)
    next
      case False
      then have lt: "length ?b < length ?a" using ne by simp
      then have "byteAt ?a (length ?b) = byteAt ?b (length ?b)" using eq by simp
      then have "?a ! length ?b = 0" using lt by (simp add: byteAt_def)
      then show False using assms(1) lt by (metis nth_mem)
    qed
  qed
  then show "?a = ?b" using eq byteAt_eq_imp_eq[of ?a ?b] by simp
next
  assume "bufferFromUtf8 a = bufferFromUtf8 b"
  then show "timeSafeCompare a b"
    by (simp add: timeSafeCompare_def Let_def bytes_compare_iff)
qed

subsection \<open>Hexadecimal strings are ASCII\<close>

lemma hexChar_ascii: "isHexChar c \<Longrightarrow> c < 0x80 \<and> c \<noteq> 0"
  by (auto simp: isHexChar_def word_le_nat_alt word_less_nat_alt)

lemma lowerHex_isHex: "isLowerHexChar c \<Longrightarrow> isHexChar c"
  by (auto simp: isHexChar_def isLowerHexChar_def)

lemma bufferFromUtf8_ascii:
  "list_all (\<lambda>c. c < 0x80) s \<Longrightarrow> bufferFromUtf8 s = map ucast s"
  by (induction s) simp_all

lemma ucast_16_8_ascii_eq:
  fixes c d :: "16 word"
  assumes "c < 0x80" "d < 0x80"
  shows "((ucast c :: u8) = ucast d) = (c = d)"
proof
  assume "(ucast c :: u8) = ucast d"
  then have "unat (ucast c :: u8) = unat (ucast d :: u8)" by simp
  moreover have "unat c < 128" "unat d < 128"
    using assms by (simp_all add: word_less_nat_alt)
  ultimately have "unat c = unat d"
    by (simp add: unsigned_ucast_eq take_bit_nat_eq_self)
  then show "c = d" by (rule word_unat_eq_iff[THEN iffD2])
qed simp

lemma ucast_16_8_ascii_zero:
  fixes c :: "16 word"
  assumes "c < 0x80"
  shows "((ucast c :: u8) = 0) = (c = 0)"
  using ucast_16_8_ascii_eq[OF assms, of 0] by simp

lemma map_ucast_ascii_inj:
  fixes a b :: jsstring
  assumes "list_all (\<lambda>c. c < 0x80) a" "list_all (\<lambda>c. c < 0x80) b"
  shows "(map ucast a = (map ucast b :: u8 list)) = (a = b)"
  using assms
proof (induction a arbitrary: b)
  case Nil
  then show ?case by auto
next
  case (Cons x xs)
  show ?case
  proof (cases b)
    case Nil
    then show ?thesis by simp
  next
    case (Cons y ys)
    with Cons.prems Cons.IH[of ys] show ?thesis
      by (simp add: ucast_16_8_ascii_eq)
  qed
qed

lemma hex_list_ascii: "list_all isHexChar s \<Longrightarrow> list_all (\<lambda>c. c < 0x80) s"
  by (induction s) (simp_all add: hexChar_ascii)

lemma hex_bytes_nonzero: "list_all isHexChar s \<Longrightarrow> 0 \<notin> set (bufferFromUtf8 s)"
proof -
  assume h: "list_all isHexChar s"
  then have "bufferFromUtf8 s = map ucast s"
    by (simp add: bufferFromUtf8_ascii hex_list_ascii)
  moreover have "\<forall>c \<in> set s. (ucast c :: u8) \<noteq> 0"
    using h hexChar_ascii ucast_16_8_ascii_zero by (auto simp: list_all_iff)
  ultimately show ?thesis by auto
qed

lemma timeSafeCompare_hex:
  assumes "list_all isHexChar a" "list_all isHexChar b"
  shows "timeSafeCompare a b = (a = b)"
proof -
  have "timeSafeCompare a b = (bufferFromUtf8 a = bufferFromUtf8 b)"
    using assms by (intro timeSafeCompare_nonzero_bytes hex_bytes_nonzero)
  also have "\<dots> = (map ucast a = (map ucast b :: u8 list))"
    using assms by (simp add: bufferFromUtf8_ascii hex_list_ascii)
  also have "\<dots> = (a = b)"
    using assms by (intro map_ucast_ascii_inj hex_list_ascii)
  finally show ?thesis .
qed

subsection \<open>The UTF-8 bytes determine the number of code units\<close>

lemma word_less_not_bit:
  fixes c :: "'a::len word"
  assumes "c < 2 ^ n"
  shows "\<not> bit c n"
proof -
  have "take_bit n c = c" using assms by (simp add: take_bit_eq_mask less_mask_eq)
  then have "bit c n = bit (take_bit n c) n" by simp
  then show ?thesis by (simp add: bit_take_bit_iff)
qed

lemma lead1: "(c::16 word) < 0x80 \<Longrightarrow> \<not> bit (ucast c :: u8) 7"
  using word_less_not_bit[of c 7] by (simp add: bit_ucast_iff)

lemma lead2_7: "bit (ucast (0xc0 OR drop_bit 6 (c::16 word)) :: u8) 7"
  by (simp add: bit_ucast_iff bit_or_iff)

lemma lead2_5: "(c::16 word) < 0x800 \<Longrightarrow> \<not> bit (ucast (0xc0 OR drop_bit 6 c) :: u8) 5"
  using word_less_not_bit[of c 11] by (simp add: bit_ucast_iff bit_or_iff bit_drop_bit_eq)

lemma lead3: "bit (ucast (0xe0 OR drop_bit 12 (c::16 word)) :: u8) 7 \<and>
  bit (ucast (0xe0 OR drop_bit 12 c) :: u8) 5 \<and> \<not> bit (ucast (0xe0 OR drop_bit 12 c) :: u8) 4"
proof -
  have "\<not> bit c 16" using bit_imp_le_length[of c 16] by auto
  then show ?thesis by (simp add: bit_ucast_iff bit_or_iff bit_drop_bit_eq)
qed

lemma lead4: "bit (ucast (0xf0 OR drop_bit 18 (cp::u32)) :: u8) 7 \<and>
  bit (ucast (0xf0 OR drop_bit 18 cp) :: u8) 5 \<and> bit (ucast (0xf0 OR drop_bit 18 cp) :: u8) 4"
  by (simp add: bit_ucast_iff bit_or_iff)

lemma leadR: "bit (0xef :: u8) 7 \<and> bit (0xef :: u8) 5 \<and> \<not> bit (0xef :: u8) 4"
  by simp


lemma utf16Units_pair: "utf16Units (utf8Pair c d @ bs) = 2 + utf16Units bs"
  using lead4 by (simp add: utf8Pair_def Let_def)

lemma utf16Units_three: "utf16Units (utf8Three c @ bs) = 1 + utf16Units bs"
  using lead3[of c] by (simp add: utf8Three_def)

lemma utf16Units_replacement: "utf16Units (0xef # 0xbf # 0xbd # bs) = 1 + utf16Units bs"
  by simp

lemma utf16Units_bufferFromUtf8: "utf16Units (bufferFromUtf8 s) = length s"
proof (induction s rule: bufferFromUtf8.induct)
  case 1
  show ?case by simp
next
  case (2 c cs)
  show ?case
  proof (cases "c < 0x80")
    case True
    with 2 show ?thesis by (simp add: lead1)
  next
    case n1: False
    show ?thesis
    proof (cases "c < 0x800")
      case True
      with n1 2 show ?thesis by (simp add: lead2_7 lead2_5)
    next
      case n2: False
      show ?thesis
      proof (cases "isHighSurrogate c")
        case hs: True
        show ?thesis
        proof (cases cs)
          case Nil
          with n1 n2 hs show ?thesis by simp
        next
          case (Cons d rest)
          show ?thesis
          proof (cases "isLowSurrogate d")
            case True
            with n1 n2 hs Cons 2(3)[OF n1 n2 hs Cons True] show ?thesis
              by (simp add: utf16Units_pair)
          next
            case False
            with n1 n2 hs Cons 2(4)[OF n1 n2 hs Cons False] show ?thesis
              by simp
          qed
        qed
      next
        case nh: False
        show ?thesis
        proof (cases "isLowSurrogate c")
          case True
          with n1 n2 nh 2(5)[OF n1 n2 nh True] show ?thesis by simp
        next
          case False
          with n1 n2 nh 2(6)[OF n1 n2 nh False] show ?thesis
            by (simp add: utf16Units_three)
        qed
      qed
    qed
  qed
qed

lemma utf8Pair_length: "length (utf8Pair c d) = 4"
  by (simp add: utf8Pair_def Let_def)

lemma utf8Three_length: "length (utf8Three c) = 3"
  by (simp add: utf8Three_def)

lemma bufferFromUtf8_length_le: "length (bufferFromUtf8 s) \<le> 3 * length s"
proof (induction s rule: bufferFromUtf8.induct)
  case 1
  show ?case by simp
next
  case (2 c cs)
  show ?case
  proof (cases "c < 0x80")
    case True
    with 2 show ?thesis by simp
  next
    case n1: False
    show ?thesis
    proof (cases "c < 0x800")
      case True
      with n1 2 show ?thesis by simp
    next
      case n2: False
      show ?thesis
      proof (cases "isHighSurrogate c")
        case hs: True
        show ?thesis
        proof (cases cs)
          case Nil
          with n1 n2 hs show ?thesis by simp
        next
          case (Cons d rest)
          show ?thesis
          proof (cases "isLowSurrogate d")
            case True
            with n1 n2 hs Cons 2(3)[OF n1 n2 hs Cons True] show ?thesis
              by (simp add: utf8Pair_length)
          next
            case False
            with n1 n2 hs Cons 2(4)[OF n1 n2 hs Cons False] show ?thesis
              by simp
          qed
        qed
      next
        case nh: False
        show ?thesis
        proof (cases "isLowSurrogate c")
          case True
          with n1 n2 nh 2(5)[OF n1 n2 nh True] show ?thesis by simp
        next
          case False
          with n1 n2 nh 2(6)[OF n1 n2 nh False] show ?thesis
            by (simp add: utf8Three_length)
        qed
      qed
    qed
  qed
qed

lemma bufferFromUtf8_eq_imp_length:
  "bufferFromUtf8 a = bufferFromUtf8 b \<Longrightarrow> length a = length b"
  by (metis utf16Units_bufferFromUtf8)

subsection \<open>Salts, the iteration loop and the credential format\<close>

lemma str_colon [simp]: "str '':'' = [0x3a]"
  by (simp add: str_def)

lemma lowerHex_not_colon: "list_all isLowerHexChar s \<Longrightarrow> 0x3a \<notin> set s"
  by (auto simp: list_all_iff isLowerHexChar_def word_le_nat_alt)

lemma lowerHex_list_isHex: "list_all isLowerHexChar s \<Longrightarrow> list_all isHexChar s"
  by (induction s) (simp_all add: lowerHex_isHex)

lemma byteHex_length: "length (byteHex b) = 2"
proof -
  have "uint b < 16 ^ 2" using uint_lt2p[of b] by simp
  then have "length (toString16 (uint b)) \<le> 2"
    by (intro toString16_length) simp_all
  then show ?thesis by (simp add: byteHex_def padStart_def)
qed

lemma byteHex_lower: "list_all isLowerHexChar (byteHex b)"
  by (simp add: byteHex_def padStart_def toString16_lower replicate_zero_lower)

lemma concat_byteHex_length: "length (concat (map byteHex bs)) = 2 * length bs"
  by (induction bs) (simp_all add: byteHex_length)

lemma concat_byteHex_lower: "list_all isLowerHexChar (concat (map byteHex bs))"
  by (induction bs) (simp_all add: byteHex_lower)

lemma generateSecureSalt_ok:
  assumes "8 \<le> len" "len \<le> 512"
  shows "generateSecureSalt entropy len = Inr (concat (map byteHex (randomBytes entropy (nat len))))"
  using assms by (simp add: generateSecureSalt_def generateCryptoSalt_def validateKeyLength_def)

lemma generateSecureSalt_fails:
  assumes "len < 8 \<or> 512 < len"
  shows "\<exists>e. generateSecureSalt entropy len = Inl e"
  using assms by (auto simp: generateSecureSalt_def validateKeyLength_def)

lemma randomBytes_length: "length (randomBytes entropy n) = n"
  by (simp add: randomBytes_def)

lemma salt_length: "length (concat (map byteHex (randomBytes entropy n))) = 2 * n"
  using concat_byteHex_length[of "randomBytes entropy n"] by (simp add: randomBytes_length)

text \<open>The iteration loop: what it returns, when it ends, when it does not.\<close>

lemma iterateHash_result:
  assumes "iterateHash i n h = Some r"
  shows "r = h \<or> (\<exists>m. r = sha256 m)"
proof (rule iterateHash.raw_induct[where P = "\<lambda>i n h r. r = h \<or> (\<exists>m. r = sha256 m)", OF _ assms])
  fix f :: "int \<Rightarrow> jsnumber \<Rightarrow> jsstring \<Rightarrow> jsstring option" and i n h r
  assume ih: "\<And>i n h r. f i n h = Some r \<Longrightarrow> r = h \<or> (\<exists>m. r = sha256 m)"
    and st: "(if lessThanNumber i n then f (increment i) n (sha256 h) else Some h) = Some r"
  show "r = h \<or> (\<exists>m. r = sha256 m)"
  proof (cases "lessThanNumber i n")
    case True
    with st have "f (increment i) n (sha256 h) = Some r" by simp
    from ih[OF this] show ?thesis by auto
  next
    case False
    with st show ?thesis by simp
  qed
qed

lemma iterateHash_sha256_lower:
  "iterateHash i n (sha256 m) = Some r \<Longrightarrow> list_all isLowerHexChar r"
  using iterateHash_result[of i n "sha256 m" r] sha256_lower by auto

lemma iterateHash_sha256_length:
  "iterateHash i n (sha256 m) = Some r \<Longrightarrow> length r = 64"
  using iterateHash_result[of i n "sha256 m" r] sha256_length by auto

lemma iterateHash_done: "\<not> lessThanNumber i n \<Longrightarrow> iterateHash i n h = Some h"
  by (subst iterateHash.simps) simp

lemma iterateHash_one: "iterateHash 1 (Finite 1) h = Some h"
  by (rule iterateHash_done) (simp add: lessThanNumber_def)

lemma loopEnds_high: "loopEnds n \<Longrightarrow> 2 ^ 53 \<le> i \<Longrightarrow> \<not> lessThanNumber i n"
proof -
  assume a: "loopEnds n" "2 ^ 53 \<le> i"
  have "(2::rat) ^ 53 \<le> of_int i" using a(2) by (metis of_int_le_iff of_int_numeral of_int_power)
  then show ?thesis using a(1)
    by (auto simp: loopEnds_def lessThanNumber_def split: jsnumber.splits)
qed

lemma iterateHash_ends:
  assumes "loopEnds n"
  shows "\<exists>r. iterateHash i n h = Some r"
proof (induction "nat (2 ^ 53 - i)" arbitrary: i h)
  case 0
  then have "2 ^ 53 \<le> i" by simp
  then show ?case using loopEnds_high[OF assms] iterateHash_done by blast
next
  case (Suc k)
  then have lt: "i < 2 ^ 53" by linarith
  show ?case
  proof (cases "lessThanNumber i n")
    case False
    then show ?thesis using iterateHash_done by blast
  next
    case True
    have "k = nat (2 ^ 53 - (i + 1))" using Suc(2) by linarith
    then obtain r where "iterateHash (i + 1) n (sha256 h) = Some r"
      using Suc(1)[of "i + 1" "sha256 h"] by blast
    then have "iterateHash i n h = Some r"
      using True lt by (subst iterateHash.simps) (simp add: increment_def)
    then show ?thesis by blast
  qed
qed





lemma validateSalt_ok: "8 \<le> length salt \<Longrightarrow> length salt \<le> 128 \<Longrightarrow> validateSalt salt 8 128 = Inr ()"
  by (simp add: validateSalt_def)

lemma validateSalt_long: "128 < length salt \<Longrightarrow> \<exists>e. validateSalt salt 8 128 = Inl e"
  by (simp add: validateSalt_def)

lemma validateHash_ok: "hash \<noteq> [] \<Longrightarrow> list_all isHexChar hash \<Longrightarrow> validateHash hash = Inr ()"
  by (simp add: validateHash_def)

lemma validateHash_iff: "(validateHash hash = Inr ()) = (hash \<noteq> [] \<and> list_all isHexChar hash)"
  by (simp add: validateHash_def)

lemma split_three:
  assumes "0x3a \<notin> set salt" "0x3a \<notin> set hash"
  shows "split_str 0x3a (salt @ 0x3a # hash @ 0x3a # json) = salt # hash # split_str 0x3a json"
  using assms by (simp add: split_str_append)

lemma split_two:
  assumes "0x3a \<notin> set salt" "0x3a \<notin> set hash"
  shows "split_str 0x3a (salt @ 0x3a # hash) = [salt, hash]"
  using assms by (simp add: split_str_append split_str_no_sep)

lemma validateStoredHashFormat_three:
  assumes "0x3a \<notin> set salt" "0x3a \<notin> set hash"
  shows "validateStoredHashFormat parse (salt @ 0x3a # hash @ 0x3a # json) =
     (if salt = [] \<or> hash = []
        then Inl (ValidationError ''Invalid stored hash format - salt and hash cannot be empty'')
      else (case validateSalt salt 8 128 of Inl e \<Rightarrow> Inl e | Inr u \<Rightarrow>
            (case validateHash hash of Inl e \<Rightarrow> Inl e | Inr v \<Rightarrow> Inr (salt, hash, parse json))))"
proof -
  have ne: "split_str 0x3a json \<noteq> []" by (rule split_str_nonempty)
  show ?thesis
    using ne by (simp add: validateStoredHashFormat_def split_three[OF assms] Let_def join_split_str
        cong: sum.case_cong)
qed

lemma validateStoredHashFormat_two:
  assumes "0x3a \<notin> set salt" "0x3a \<notin> set hash"
  shows "validateStoredHashFormat parse (salt @ 0x3a # hash) =
     (if salt = [] \<or> hash = []
        then Inl (ValidationError ''Invalid stored hash format - salt and hash cannot be empty'')
      else (case validateSalt salt 8 128 of Inl e \<Rightarrow> Inl e | Inr u \<Rightarrow>
            (case validateHash hash of Inl e \<Rightarrow> Inl e | Inr v \<Rightarrow> Inr (salt, hash, None))))"
  by (simp add: validateStoredHashFormat_def split_two[OF assms] Let_def)

subsection \<open>Hashing and verification\<close>

lemma orNumber_truthy: "d \<noteq> Finite 0 \<Longrightarrow> d \<noteq> NaN \<Longrightarrow> orNumber (Some (orNumber v d)) e = orNumber v d"
  by (auto simp: orNumber_def split: option.splits)

lemma orNumber_again: "orNumber (Some (orNumber v (Finite 1))) (Finite 1) = orNumber v (Finite 1)"
  by (rule orNumber_truthy) simp_all

lemma producedSalt_length: "length (producedSalt entropy n) = 2 * nat n"
  by (simp add: producedSalt_def salt_length)

lemma producedSalt_lower: "list_all isLowerHexChar (producedSalt entropy n)"
  by (simp add: producedSalt_def concat_byteHex_lower)

lemma hashPassword_value:
  assumes "validatePassword password = Inr ()"
    and "8 \<le> orNum (opt_saltLength options) 32" and "orNum (opt_saltLength options) 32 \<le> 512"
  shows "hashPassword stringify entropy now password options =
     map_option
       (\<lambda>digest. Inr (producedSalt entropy (orNum (opt_saltLength options) 32) @ str '':''
          @ digest @ str '':'' @ stringify (producedMetadata now options)))
       (iterateHash 1 (orNumber (opt_iterations options) (Finite 1))
          (sha256 (password @ producedSalt entropy (orNum (opt_saltLength options) 32))))"
  using assms
  by (simp add: hashPassword_def Let_def generateSecureSalt_ok producedSalt_def producedMetadata_def
      split: option.splits)

lemma hashPassword_invalid_password:
  assumes "validatePassword password = Inl e"
  shows "hashPassword stringify entropy now password options = Some (Inl e)"
  using assms by (simp add: hashPassword_def)

lemma hashPassword_invalid_saltLength:
  assumes "validatePassword password = Inr ()"
    and "orNum (opt_saltLength options) 32 < 8 \<or> 512 < orNum (opt_saltLength options) 32"
  shows "\<exists>e. hashPassword stringify entropy now password options = Some (Inl e)"
  using generateSecureSalt_fails[OF assms(2), of entropy] assms(1)
  by (auto simp: hashPassword_def Let_def)

lemma decode_produced:
  assumes "8 \<le> n" and "n \<le> 64" and "list_all isLowerHexChar hash" and "hash \<noteq> []"
  shows "validateStoredHashFormat parse
           (producedSalt entropy n @ str '':'' @ hash @ str '':'' @ json)
         = Inr (producedSalt entropy n, hash, parse json)"
proof -
  let ?salt = "producedSalt entropy n"
  have s1: "0x3a \<notin> set ?salt" by (rule lowerHex_not_colon[OF producedSalt_lower])
  have h1: "0x3a \<notin> set hash" by (rule lowerHex_not_colon[OF assms(3)])
  have sl: "length ?salt = 2 * nat n" by (rule producedSalt_length)
  have s2: "?salt \<noteq> []" using sl assms by auto
  have vs: "validateSalt ?salt 8 128 = Inr ()" using sl assms by (intro validateSalt_ok) auto
  have vh: "validateHash hash = Inr ()"
    using assms(4) by (intro validateHash_ok lowerHex_list_isHex assms(3))
  show ?thesis
    using validateStoredHashFormat_three[OF s1 h1, of parse json] s2 assms(4) vs vh by simp
qed

lemma decode_produced_long:
  assumes "64 < n" and "list_all isLowerHexChar hash"
  shows "\<exists>e. validateStoredHashFormat parse
           (producedSalt entropy n @ str '':'' @ hash @ str '':'' @ json) = Inl e"
proof -
  let ?salt = "producedSalt entropy n"
  have s1: "0x3a \<notin> set ?salt" by (rule lowerHex_not_colon[OF producedSalt_lower])
  have h1: "0x3a \<notin> set hash" by (rule lowerHex_not_colon[OF assms(2)])
  have sl: "length ?salt = 2 * nat n" by (rule producedSalt_length)
  have "128 < length ?salt" using sl assms by auto
  then obtain e where "validateSalt ?salt 8 128 = Inl e" using validateSalt_long by blast
  then show ?thesis
    using validateStoredHashFormat_three[OF s1 h1, of parse json] by auto
qed


lemma verifyPasswordSecure_never_throws:
  "verifyPasswordSecure parse startTime endTime password storedHash \<noteq> Some (Inl e)"
  by (simp add: verifyPasswordSecure_def split: option.splits sum.splits error.splits)

lemma isValid_eq_verifyPassword:
  "map_option (map_sum id isValid) (verifyPasswordSecure parse startTime endTime password storedHash)
     = verifyPassword parse password storedHash"
  by (auto simp: verifyPasswordSecure_def verifyPasswordSecureTry_def verifyPassword_def
      verifyPasswordTry_def Let_def split: sum.splits error.splits prod.splits option.splits)


lemma verifyPassword_invalid_stored:
  assumes "validateStoredHashFormat parse storedHash = Inl e"
  shows "verifyPassword parse password storedHash = Some (Inr False)"
  using assms by (simp add: verifyPassword_def verifyPasswordTry_def split: sum.splits)

lemma verifyPassword_decoded:
  assumes "validatePassword password = Inr ()"
    and "validateStoredHashFormat parse storedHash = Inr (salt, hash, metadata)"
  shows "verifyPassword parse password storedHash =
     map_option (\<lambda>computedHash. Inr (timeSafeCompare computedHash hash))
       (iterateHash 1 (orNumber (metadataIterations metadata) (Finite 1)) (sha256 (password @ salt)))"
  using assms by (simp add: verifyPassword_def verifyPasswordTry_def Let_def split: option.splits)


lemma verifyPassword_produced_long:
  assumes "64 < n" and "list_all isLowerHexChar hash"
  shows "verifyPassword parse password
           (producedSalt entropy n @ str '':'' @ hash @ str '':'' @ json)
         = Some (Inr False)"
proof -
  obtain e where "validateStoredHashFormat parse
      (producedSalt entropy n @ str '':'' @ hash @ str '':'' @ json) = Inl e"
    using decode_produced_long[OF assms] by blast
  then show ?thesis by (rule verifyPassword_invalid_stored)
qed

lemma verifyPassword_produced:
  assumes "validatePassword password = Inr ()"
    and "8 \<le> n" and "n \<le> 64"
    and "metadataIterations (parse json) = Some k" and "k \<noteq> Finite 0" and "k \<noteq> NaN"
    and "iterateHash 1 k (sha256 (password @ producedSalt entropy n)) = Some digest"
  shows "verifyPassword parse password
           (producedSalt entropy n @ str '':'' @ digest @ str '':'' @ json)
         = Some (Inr True)"
proof -
  have lo: "list_all isLowerHexChar digest" using assms(7) by (rule iterateHash_sha256_lower)
  have ne: "digest \<noteq> []" using iterateHash_sha256_length[OF assms(7)] by auto
  have dec: "validateStoredHashFormat parse
      (producedSalt entropy n @ str '':'' @ digest @ str '':'' @ json)
      = Inr (producedSalt entropy n, digest, parse json)"
    using assms(2,3) lo ne by (rule decode_produced)
  have k: "orNumber (metadataIterations (parse json)) (Finite 1) = k"
    using assms(4,5,6) by (simp add: orNumber_def)
  show ?thesis
    using verifyPassword_decoded[OF assms(1) dec] k assms(7) by (simp add: timeSafeCompare_refl)
qed

text \<open>
  A credential that \<^verbatim>\<open>hashPassword\<close> produces with a salt length from 8 to 64 verifies
  against its password, where \<open>parse\<close> reads back the metadata that \<open>stringify\<close> wrote
  and the iteration loop ends.
\<close>

lemma produced_credential_verifies:
  assumes "validatePassword password = Inr ()"
    and "8 \<le> orNum (opt_saltLength options) 32" and "orNum (opt_saltLength options) 32 \<le> 64"
    and "loopEnds (orNumber (opt_iterations options) (Finite 1))"
    and "parse (stringify (producedMetadata now options)) = Some (producedMetadata now options)"
  shows "\<exists>credential. hashPassword stringify entropy now password options = Some (Inr credential)
           \<and> verifyPassword parse password credential = Some (Inr True)"
proof -
  let ?n = "orNum (opt_saltLength options) 32"
  let ?k = "orNumber (opt_iterations options) (Finite 1)"
  obtain digest where d: "iterateHash 1 ?k (sha256 (password @ producedSalt entropy ?n)) = Some digest"
    using iterateHash_ends[OF assms(4)] by blast
  have k: "?k \<noteq> Finite 0" "?k \<noteq> NaN" by (auto simp: orNumber_def split: option.splits)
  have it: "metadataIterations (parse (stringify (producedMetadata now options))) = Some ?k"
    using assms(5) by (simp add: metadataIterations_def producedMetadata_def)
  have h: "hashPassword stringify entropy now password options =
      Some (Inr (producedSalt entropy ?n @ str '':'' @ digest @ str '':''
                 @ stringify (producedMetadata now options)))"
    using hashPassword_value[OF assms(1), of options stringify entropy now] assms(2,3) d by simp
  have v: "verifyPassword parse password
      (producedSalt entropy ?n @ str '':'' @ digest @ str '':''
         @ stringify (producedMetadata now options)) = Some (Inr True)"
    using assms(1,2,3) it k d by (rule verifyPassword_produced)
  show ?thesis using h v by blast
qed

subsection \<open>The loops of the digest engine as recurrences\<close>

lemma partialSchedule_length: "length (partialSchedule block t) = 64"
  by (simp add: partialSchedule_def)

lemma partialSchedule_nth: "i < 64 \<Longrightarrow> partialSchedule block t ! i = (if i < t then wAt block i else 0)"
  by (simp add: partialSchedule_def)

lemma elemOr0_partialSchedule:
  "i < t \<Longrightarrow> i < 64 \<Longrightarrow> elemOr0 (partialSchedule block t) i = wAt block i"
  by (simp add: elemOr0_def partialSchedule_length partialSchedule_nth)

lemma scheduleStep_partial:
  assumes "16 \<le> t" "t < 64"
  shows "scheduleStep (partialSchedule block t) t = partialSchedule block (Suc t)"
proof -
  have w: "wAt block t =
      toUint32 (wAt block (t - 16)
        + (rightRotate (wAt block (t - 15)) 7 XOR rightRotate (wAt block (t - 15)) 18
            XOR rightShift (wAt block (t - 15)) 3)
        + wAt block (t - 7)
        + (rightRotate (wAt block (t - 2)) 17 XOR rightRotate (wAt block (t - 2)) 19
            XOR rightShift (wAt block (t - 2)) 10))"
    using assms by (subst wAt.simps) (simp add: Let_def)
  have e: "elemOr0 (partialSchedule block t) (t - 15) = wAt block (t - 15)"
      "elemOr0 (partialSchedule block t) (t - 2) = wAt block (t - 2)"
      "elemOr0 (partialSchedule block t) (t - 16) = wAt block (t - 16)"
      "elemOr0 (partialSchedule block t) (t - 7) = wAt block (t - 7)"
    using assms by (simp_all add: elemOr0_partialSchedule)
  have "scheduleStep (partialSchedule block t) t = (partialSchedule block t)[t := wAt block t]"
    unfolding scheduleStep_def Let_def e w[symmetric] ..
  also have "\<dots> = partialSchedule block (Suc t)"
    using assms
    by (auto simp: list_eq_iff_nth_eq partialSchedule_length partialSchedule_nth nth_list_update)
  finally show ?thesis .
qed

lemma scheduleLoop_partial:
  "16 \<le> t \<Longrightarrow> t \<le> 64 \<Longrightarrow> scheduleLoop t (partialSchedule block t) = partialSchedule block 64"
proof (induction "64 - t" arbitrary: t)
  case 0
  then have "t = 64" by simp
  then show ?case by (subst scheduleLoop.simps) simp
next
  case (Suc n)
  then have lt: "t < 64" by simp
  have "scheduleLoop t (partialSchedule block t)
      = scheduleLoop (t + 1) (scheduleStep (partialSchedule block t) t)"
    using lt by (subst scheduleLoop.simps) simp
  also have "\<dots> = scheduleLoop (Suc t) (partialSchedule block (Suc t))"
    using Suc.prems lt by (simp add: scheduleStep_partial)
  also have "\<dots> = partialSchedule block 64"
    using Suc lt by (intro Suc.hyps(1)) simp_all
  finally show ?case .
qed

lemma initial_schedule:
  assumes "length block = 16"
  shows "block @ replicate 48 0 = partialSchedule block 16"
proof (rule nth_equalityI)
  show "length (block @ replicate 48 0) = length (partialSchedule block 16)"
    using assms by (simp add: partialSchedule_length)
next
  fix i assume "i < length (block @ replicate 48 0)"
  then have i: "i < 64" using assms by simp
  show "(block @ replicate 48 0) ! i = partialSchedule block 16 ! i"
  proof (cases "i < 16")
    case True
    then have "wAt block i = block ! i"
      using assms by (subst wAt.simps) (simp add: elemOr0_def)
    then show ?thesis using True i assms by (simp add: partialSchedule_nth nth_append)
  next
    case False
    then show ?thesis using i assms by (simp add: partialSchedule_nth nth_append)
  qed
qed

lemma scheduleLoop_wAt:
  assumes "length block = 16"
  shows "scheduleLoop 16 (block @ replicate 48 0) = map (wAt block) [0..<64]"
proof -
  have "scheduleLoop 16 (block @ replicate 48 0) = partialSchedule block 64"
    using scheduleLoop_partial[of 16 block] initial_schedule[OF assms] by simp
  also have "\<dots> = map (wAt block) [0..<64]"
    by (simp add: partialSchedule_def)
  finally show ?thesis .
qed

lemma elemOr0_schedule: "t < 64 \<Longrightarrow> elemOr0 (map (wAt block) [0..<64]) t = wAt block t"
  by (simp add: elemOr0_def)

lemma roundLoop_regsAt_aux:
  "t \<le> 64 \<Longrightarrow> roundLoop t w (regsAt w r t) = regsAt w r 64"
proof (induction "64 - t" arbitrary: t)
  case 0
  then have "t = 64" by simp
  then show ?case by (subst roundLoop.simps) simp
next
  case (Suc n)
  then have lt: "t < 64" by simp
  have "roundLoop t w (regsAt w r t) = roundLoop (Suc t) w (regsAt w r (Suc t))"
    using lt by (subst roundLoop.simps) simp
  also have "\<dots> = regsAt w r 64"
    using Suc lt by (intro Suc.hyps(1)) simp_all
  finally show ?case .
qed

lemma roundLoop_regsAt: "roundLoop 0 w r = regsAt w r 64"
  using roundLoop_regsAt_aux[of 0 w r] by simp

lemma roundsOf_0:
  "roundsOf message 0 =
     (elemOr0 H0 0, elemOr0 H0 1, elemOr0 H0 2, elemOr0 H0 3,
      elemOr0 H0 4, elemOr0 H0 5, elemOr0 H0 6, elemOr0 H0 7)"
  by (simp add: roundsOf_def)

lemma roundsOf_Suc:
  "roundsOf message (Suc t)
     = roundStep (map (wAt (paddedWords message)) [0..<64]) (roundsOf message t) t"
  by (simp add: roundsOf_def)

lemma roundsOf_1:
  "roundsOf message 1
     = roundStep (map (wAt (paddedWords message)) [0..<64]) (roundsOf message 0) 0"
  using roundsOf_Suc[of message 0] by simp

lemma roundsOf_numeral:
  "roundsOf message (numeral n)
     = roundStep (map (wAt (paddedWords message)) [0..<64])
         (roundsOf message (pred_numeral n)) (pred_numeral n)"
  using roundsOf_Suc[of message "pred_numeral n"] by (simp add: numeral_eq_Suc)

lemma processBlock_recurrence:
  assumes "length (paddedWords message) = 16"
    and "roundsOf message 64 = (a, b, c, d, e, f, g, h0)"
  shows "processBlock H0 (paddedWords message) =
     H0[0 := toUint32 (elemOr0 H0 0 + a), 1 := toUint32 (elemOr0 H0 1 + b),
        2 := toUint32 (elemOr0 H0 2 + c), 3 := toUint32 (elemOr0 H0 3 + d),
        4 := toUint32 (elemOr0 H0 4 + e), 5 := toUint32 (elemOr0 H0 5 + f),
        6 := toUint32 (elemOr0 H0 6 + g), 7 := toUint32 (elemOr0 H0 7 + h0)]"
  using assms(2)
  by (simp add: processBlock_def scheduleLoop_wAt[OF assms(1)] roundLoop_regsAt roundsOf_def)

lemma sha256_one_block:
  assumes "length (paddedWords message) = 16"
  shows "sha256 message = concat (map hex8 (processBlock H0 (paddedWords message)))"
proof -
  have "processBlocks 0 (paddedWords message) H0
      = processBlocks 16 (paddedWords message) (processBlock H0 (paddedWords message))"
    using assms by (subst processBlocks.simps) simp
  also have "\<dots> = processBlock H0 (paddedWords message)"
    using assms by (subst processBlocks.simps) simp
  finally show ?thesis by (simp add: sha256_def)
qed

section \<open>The claims\<close>

subsection \<open>The timing-safe comparator\<close>

lemma compareLoop_foldl:
  "compareLoop i m a b r =
     foldl (\<lambda>result i. result OR (ucast (byteAt a i) XOR ucast (byteAt b i))) r [i..<m]"
proof (induction i m a b r rule: compareLoop.induct)
  case (1 i maxLength aBytes bBytes result)
  show ?case
  proof (cases "i < maxLength")
    case True
    then show ?thesis
      using 1[OF True refl refl]
      by (subst compareLoop.simps) (simp add: Let_def upt_conv_Cons)
  next
    case False
    then show ?thesis by (subst compareLoop.simps) simp
  qed
qed

text \<open>
  C4. \<^verbatim>\<open>timeSafeCompare(a, b)\<close> is the computation the specification describes, run
  on the UTF-8 bytes of the two strings: the result starts as the exclusive-or of the two
  lengths, takes in the exclusive-or of the bytes at every position below the larger length
  (0 past the end of a sequence), and the answer is whether it is 0. Consequently the answer is
  true exactly when the two byte sequences are equal. The lengths are below \<open>2 ^ 32\<close>, as
  those of every string of the platform are, since the exclusive-or is one of 32-bit integers.
\<close>

theorem timeSafeCompare_spec:
  assumes "length (bufferFromUtf8 a) < 2 ^ 32" and "length (bufferFromUtf8 b) < 2 ^ 32"
  shows "timeSafeCompare a b = compareSpec (bufferFromUtf8 a) (bufferFromUtf8 b)
       \<and> timeSafeCompare a b = (bufferFromUtf8 a = bufferFromUtf8 b)"
proof
  show "timeSafeCompare a b = compareSpec (bufferFromUtf8 a) (bufferFromUtf8 b)"
    by (simp add: timeSafeCompare_def compareSpec_def Let_def compareLoop_foldl)
  show "timeSafeCompare a b = (bufferFromUtf8 a = bufferFromUtf8 b)"
    using assms by (rule timeSafeCompare_iff_bytes)
qed

theorem timeSafeCompare_spec_witness:
  "length (bufferFromUtf8 (str ''abc'')) < 2 ^ 32
   \<and> length (bufferFromUtf8 (str ''abd'')) < 2 ^ 32
   \<and> timeSafeCompare (str ''abc'') (str ''abd'')
       = compareSpec (bufferFromUtf8 (str ''abc'')) (bufferFromUtf8 (str ''abd''))
   \<and> timeSafeCompare (str ''abc'') (str ''abd'')
       = (bufferFromUtf8 (str ''abc'') = bufferFromUtf8 (str ''abd''))
   \<and> \<not> timeSafeCompare (str ''abc'') (str ''abd'')"
proof -
  have la: "length (bufferFromUtf8 (str ''abc'')) < 2 ^ 32" by (simp add: str_def)
  have lb: "length (bufferFromUtf8 (str ''abd'')) < 2 ^ 32" by (simp add: str_def)
  have ne: "bufferFromUtf8 (str ''abc'') \<noteq> bufferFromUtf8 (str ''abd'')" by (simp add: str_def)
  show ?thesis using la lb ne timeSafeCompare_spec[OF la lb] by blast
qed

text \<open>
  C10. \<^verbatim>\<open>constantTimeCompare(a, b)\<close> and \<^verbatim>\<open>timeSafeCompare(a, b)\<close> return the
  same boolean: when the two strings differ in their number of code units their UTF-8 bytes
  differ too, so the early \<^verbatim>\<open>return false\<close> is the answer \<^verbatim>\<open>timeSafeCompare\<close>
  would give. The byte lengths are below \<open>2 ^ 32\<close>, as in C4.
\<close>

theorem constantTimeCompare_eq_timeSafeCompare:
  assumes "length (bufferFromUtf8 a) < 2 ^ 32" and "length (bufferFromUtf8 b) < 2 ^ 32"
  shows "constantTimeCompare a b = timeSafeCompare a b"
proof (cases "length a = length b")
  case True
  then show ?thesis by (simp add: constantTimeCompare_def)
next
  case False
  then have "bufferFromUtf8 a \<noteq> bufferFromUtf8 b"
    using bufferFromUtf8_eq_imp_length by blast
  then have "\<not> timeSafeCompare a b"
    using assms by (simp add: timeSafeCompare_iff_bytes)
  then show ?thesis using False by (simp add: constantTimeCompare_def)
qed

theorem constantTimeCompare_eq_timeSafeCompare_witness:
  "length (bufferFromUtf8 (str ''abc'')) < 2 ^ 32
   \<and> length (bufferFromUtf8 (str ''abcd'')) < 2 ^ 32
   \<and> constantTimeCompare (str ''abc'') (str ''abcd'') = timeSafeCompare (str ''abc'') (str ''abcd'')
   \<and> \<not> constantTimeCompare (str ''abc'') (str ''abcd'')"
proof -
  have la: "length (bufferFromUtf8 (str ''abc'')) < 2 ^ 32" by (simp add: str_def)
  have lb: "length (bufferFromUtf8 (str ''abcd'')) < 2 ^ 32" by (simp add: str_def)
  have f: "\<not> constantTimeCompare (str ''abc'') (str ''abcd'')"
    by (simp add: constantTimeCompare_def str_def)
  show ?thesis using la lb f constantTimeCompare_eq_timeSafeCompare[OF la lb] by blast
qed

subsection \<open>The digest engine\<close>

text \<open>
  C8. For every message \<open>m\<close>, \<^verbatim>\<open>sha256(m)\<close> is exactly 64 characters, each a
  lowercase hexadecimal digit. \<open>sha256\<close> is a function of the message alone, so two calls
  on the same message give the same digest.
\<close>

theorem sha256_is_64_lowercase_hex:
  "length (sha256 m) = 64 \<and> list_all isLowerHexChar (sha256 m) \<and> sha256 m = sha256 m"
  by (simp add: sha256_length sha256_lower)

theorem sha256_is_64_lowercase_hex_witness:
  "length (sha256 (str ''hello world'')) = 64
   \<and> list_all isLowerHexChar (sha256 (str ''hello world''))"
  using sha256_is_64_lowercase_hex[of "str ''hello world''"] by simp

subsection \<open>The password service\<close>

lemma validatePassword_hunter2: "validatePassword (str ''hunter2'') = Inr ()"
  by (simp add: validatePassword_def str_def)

lemma validatePassword_testpassword: "validatePassword (str ''testpassword123'') = Inr ()"
  by (simp add: validatePassword_def str_def)

lemma not_a_valid_credential:
  "validateStoredHashFormat parse (str ''not-a-valid-credential'')
     = Inl (ValidationError
         ''Invalid stored hash format - must contain salt and hash separated by colon'')"
  by (simp add: validateStoredHashFormat_def str_def)

lemma verifyPassword_not_a_valid_credential:
  "verifyPassword parse password (str ''not-a-valid-credential'') = Some (Inr False)"
  by (rule verifyPassword_invalid_stored[OF not_a_valid_credential])







text \<open>
  C6, as amended. For every password that \<^verbatim>\<open>validatePassword\<close> accepts (not empty, at
  most 1024 code units, no NUL), every salt of 8 to 128 code units and every digest, neither
  holding a colon: \<^verbatim>\<open>verifyPassword\<close> on the two-field text \<open>salt:digest\<close> is true
  exactly when the single digest of password followed by salt is the stored digest. When the
  digest field is hexadecimal the text decodes to the salt, the digest and no metadata, and the
  iteration count read from no metadata is 1.
\<close>

theorem legacy_credential_verifies:
  assumes "validatePassword password = Inr ()"
    and "8 \<le> length salt" and "length salt \<le> 128"
    and "0x3a \<notin> set salt" and "0x3a \<notin> set digest"
  shows "verifyPassword parse password (salt @ str '':'' @ digest)
           = Some (Inr (sha256 (password @ salt) = digest))
       \<and> (digest \<noteq> [] \<and> list_all isHexChar digest \<longrightarrow>
            validateStoredHashFormat parse (salt @ str '':'' @ digest) = Inr (salt, digest, None)
            \<and> orNumber (metadataIterations None) (Finite 1) = Finite 1)"
proof -
  have salt_ne: "salt \<noteq> []" using assms(2) by auto
  have vs: "validateSalt salt 8 128 = Inr ()" using assms(2,3) by (rule validateSalt_ok)
  have dec: "validateStoredHashFormat parse (salt @ str '':'' @ digest) =
      (if digest = [] then Inl (ValidationError ''Invalid stored hash format - salt and hash cannot be empty'')
       else (case validateHash digest of Inl e \<Rightarrow> Inl e | Inr v \<Rightarrow> Inr (salt, digest, None)))"
    using validateStoredHashFormat_two[OF assms(4,5), of parse] salt_ne vs by simp
  have one: "orNumber (metadataIterations None) (Finite 1) = Finite 1"
    by (simp add: orNumber_def metadataIterations_def)
  show ?thesis
  proof (cases "digest \<noteq> [] \<and> list_all isHexChar digest")
    case True
    then have vh: "validateHash digest = Inr ()" by (simp add: validateHash_ok)
    have d: "validateStoredHashFormat parse (salt @ str '':'' @ digest) = Inr (salt, digest, None)"
      using dec vh True by simp
    have "timeSafeCompare (sha256 (password @ salt)) digest = (sha256 (password @ salt) = digest)"
      using True timeSafeCompare_hex[OF lowerHex_list_isHex[OF sha256_lower], of digest "password @ salt"]
      by simp
    then have "verifyPassword parse password (salt @ str '':'' @ digest)
        = Some (Inr (sha256 (password @ salt) = digest))"
      using verifyPassword_decoded[OF assms(1) d] one by (simp add: iterateHash_one)
    then show ?thesis using d one by simp
  next
    case False
    then have "\<exists>e. validateStoredHashFormat parse (salt @ str '':'' @ digest) = Inl e"
      using dec by (auto simp: validateHash_def)
    then obtain e where "validateStoredHashFormat parse (salt @ str '':'' @ digest) = Inl e"
      by blast
    then have v: "verifyPassword parse password (salt @ str '':'' @ digest) = Some (Inr False)"
      by (rule verifyPassword_invalid_stored)
    have "sha256 (password @ salt) \<noteq> digest"
    proof
      assume e: "sha256 (password @ salt) = digest"
      have "length digest = 64" using e sha256_length[of "password @ salt"] by simp
      moreover have "list_all isHexChar digest"
        using e lowerHex_list_isHex[OF sha256_lower[of "password @ salt"]] by simp
      ultimately show False using False by auto
    qed
    then show ?thesis using v False by auto
  qed
qed

theorem legacy_credential_verifies_witness:
  "validatePassword (str ''hunter2'') = Inr ()
   \<and> 8 \<le> length (str ''saltsalt'') \<and> length (str ''saltsalt'') \<le> 128
   \<and> 0x3a \<notin> set (str ''saltsalt'')
   \<and> 0x3a \<notin> set (sha256 (str ''hunter2'' @ str ''saltsalt''))
   \<and> verifyPassword demoParse (str ''hunter2'')
         (str ''saltsalt'' @ str '':'' @ sha256 (str ''hunter2'' @ str ''saltsalt''))
       = Some (Inr True)"
proof -
  have s: "8 \<le> length (str ''saltsalt'')" "length (str ''saltsalt'') \<le> 128"
      "0x3a \<notin> set (str ''saltsalt'')"
    by (simp_all add: str_def)
  have d: "0x3a \<notin> set (sha256 (str ''hunter2'' @ str ''saltsalt''))"
    by (rule lowerHex_not_colon[OF sha256_lower])
  show ?thesis
    using s d validatePassword_hunter2
      legacy_credential_verifies[OF validatePassword_hunter2 s d, of demoParse]
    by simp
qed

text \<open>
  C6 as stated fails: the password \<^verbatim>\<open>"a\\u0000b"\<close> has three code units, the stored
  digest is the single digest of password followed by salt, and \<^verbatim>\<open>verifyPassword\<close> is
  false, because \<^verbatim>\<open>validatePassword\<close> rejects a password that holds a NUL.
\<close>

theorem legacy_credential_nul_password_counterexample:
  "verifyPassword demoParse [0x61, 0, 0x62]
     (str ''saltsalt'' @ str '':'' @ sha256 ([0x61, 0, 0x62] @ str ''saltsalt'')) = Some (Inr False)"
  by (simp add: verifyPassword_def verifyPasswordTry_def validatePassword_def)

text \<open>
  C7. \<^verbatim>\<open>upgradePasswordHash\<close> resolves with \<^verbatim>\<open>null\<close> whenever verification of the
  password against the old credential returns false, and when it returns true it is
  \<^verbatim>\<open>hashPassword(password, newOptions)\<close>: its credential, or its exception. Where
  verification does not return, neither does the upgrade.
\<close>

theorem upgrade_only_after_verification:
  "upgradePasswordHash parse stringify entropy startTime endTime now password oldStoredHash newOptions =
     (case verifyPassword parse password oldStoredHash of
        None \<Rightarrow> None
      | Some verified \<Rightarrow>
          if verified = Inr True
          then map_option (map_sum id Some) (hashPassword stringify entropy now password newOptions)
          else Some (Inr None))"
proof -
  let ?s = "verifyPasswordSecure parse startTime endTime password oldStoredHash"
  have rel: "map_option (map_sum id isValid) ?s = verifyPassword parse password oldStoredHash"
    by (rule isValid_eq_verifyPassword)
  show ?thesis
  proof (cases ?s)
    case None
    then show ?thesis using rel by (simp add: upgradePasswordHash_def)
  next
    case (Some y)
    then obtain r where r: "y = Inr r"
      using verifyPasswordSecure_never_throws[of parse startTime endTime password oldStoredHash]
      by (cases y) auto
    have v: "verifyPassword parse password oldStoredHash = Some (Inr (isValid r))"
      using rel Some r by simp
    show ?thesis
      using Some r v
      by (auto simp: upgradePasswordHash_def split: option.splits sum.splits)
  qed
qed

theorem upgrade_only_after_verification_witness:
  "verifyPassword demoParse (str ''hunter2'') (str ''not-a-valid-credential'') = Some (Inr False)
   \<and> upgradePasswordHash demoParse demoStringify (\<lambda>i. 0xab) 10 12 15
         (str ''hunter2'') (str ''not-a-valid-credential'') defaultOptions = Some (Inr None)"
  using upgrade_only_after_verification[of demoParse demoStringify "\<lambda>i. 0xab" 10 12 15
      "str ''hunter2''" "str ''not-a-valid-credential''" defaultOptions]
  by (simp add: verifyPassword_not_a_valid_credential)

text \<open>
  C2 at a salt length of 65. \<^verbatim>\<open>hashPassword\<close> accepts every salt length from 8 to 512
  and writes two hexadecimal digits for each byte, so here the salt of the credential has 130
  characters; \<^verbatim>\<open>verifyPassword\<close> accepts a salt of at most 128 characters and returns
  false for the password that was hashed.
\<close>

theorem hashPassword_salt65_is_not_verified:
  "\<exists>credential.
     hashPassword demoStringify (\<lambda>i. 0xab) 1700000000000 (str ''testpassword123'')
       (defaultOptions\<lparr>opt_saltLength := Some 65\<rparr>) = Some (Inr credential)
     \<and> length (hd (split_str 0x3a credential)) = 130
     \<and> verifyPassword demoParse (str ''testpassword123'') credential = Some (Inr False)"
proof -
  let ?o = "defaultOptions\<lparr>opt_saltLength := Some 65\<rparr>"
  let ?salt = "producedSalt (\<lambda>i. 0xab) 65"
  let ?digest = "sha256 (str ''testpassword123'' @ ?salt)"
  let ?rest = "?digest @ str '':'' @ demoStringify (producedMetadata 1700000000000 ?o)"
  have n: "orNum (opt_saltLength ?o) 32 = 65"
      "orNumber (opt_iterations ?o) (Finite 1) = Finite 1"
    by (simp_all add: defaultOptions_def orNum_def orNumber_def)
  have h: "hashPassword demoStringify (\<lambda>i. 0xab) 1700000000000 (str ''testpassword123'') ?o
      = Some (Inr (?salt @ str '':'' @ ?rest))"
    using hashPassword_value[OF validatePassword_testpassword, of ?o demoStringify "\<lambda>i. 0xab"
        1700000000000] n by (simp add: iterateHash_one)
  have c: "0x3a \<notin> set ?salt" by (rule lowerHex_not_colon[OF producedSalt_lower])
  have "split_str 0x3a (?salt @ str '':'' @ ?rest) = ?salt # split_str 0x3a ?rest"
    using split_str_append[OF c] by simp
  then have l: "length (hd (split_str 0x3a (?salt @ str '':'' @ ?rest))) = 130"
    by (simp add: producedSalt_length)
  have v: "verifyPassword demoParse (str ''testpassword123'') (?salt @ str '':'' @ ?rest)
      = Some (Inr False)"
    by (rule verifyPassword_produced_long) (simp_all add: sha256_lower)
  show ?thesis using h l v by blast
qed

text \<open>
  C9 at the algorithm \<^verbatim>\<open>'sha512'\<close> and a salt length of 65. The digest of the credential
  is the \<^verbatim>\<open>sha256\<close> digest of password followed by salt and the metadata records
  \<^verbatim>\<open>sha512\<close>, as the claim says; but the salt has 130 characters, the verifier accepts at
  most 128, and \<^verbatim>\<open>verifyPassword\<close> and \<^verbatim>\<open>verifyPasswordSecure\<close> answer false for the
  password that was hashed.
\<close>

theorem sha512_salt65_is_not_verified:
  "\<exists>salt credential.
     length salt = 130
     \<and> credential = salt @ str '':'' @ sha256 (str ''testpassword123'' @ salt) @ str '':''
         @ demoStringify \<lparr>meta_algorithm = Some (str ''sha512''), meta_iterations = Some (Finite 1),
                           meta_keyLength = Some 64, meta_timestamp = Some 1700000000000\<rparr>
     \<and> hashPassword demoStringify (\<lambda>i. 0xab) 1700000000000 (str ''testpassword123'')
         (defaultOptions\<lparr>opt_algorithm := Some (str ''sha512''), opt_saltLength := Some 65\<rparr>)
       = Some (Inr credential)
     \<and> verifyPassword demoParse (str ''testpassword123'') credential = Some (Inr False)
     \<and> map_option (map_sum id isValid)
           (verifyPasswordSecure demoParse 10 12 (str ''testpassword123'') credential)
         = Some (Inr False)"
proof -
  let ?o = "defaultOptions\<lparr>opt_algorithm := Some (str ''sha512''), opt_saltLength := Some 65\<rparr>"
  let ?salt = "producedSalt (\<lambda>i. 0xab) 65"
  let ?digest = "sha256 (str ''testpassword123'' @ ?salt)"
  let ?m = "\<lparr>meta_algorithm = Some (str ''sha512''), meta_iterations = Some (Finite 1),
             meta_keyLength = Some 64, meta_timestamp = Some 1700000000000\<rparr>"
  let ?cred = "?salt @ str '':'' @ ?digest @ str '':'' @ demoStringify ?m"
  have n: "orNum (opt_saltLength ?o) 32 = 65"
      "orNumber (opt_iterations ?o) (Finite 1) = Finite 1"
    by (simp_all add: defaultOptions_def orNum_def orNumber_def)
  have m: "producedMetadata 1700000000000 ?o = ?m"
    by (simp add: producedMetadata_def defaultOptions_def orNum_def orNumber_def orStr_def str_def)
  have h: "hashPassword demoStringify (\<lambda>i. 0xab) 1700000000000 (str ''testpassword123'') ?o
      = Some (Inr ?cred)"
    using hashPassword_value[OF validatePassword_testpassword, of ?o demoStringify "\<lambda>i. 0xab"
        1700000000000] n m by (simp add: iterateHash_one)
  have l: "length ?salt = 130" by (simp add: producedSalt_length)
  have v: "verifyPassword demoParse (str ''testpassword123'') ?cred = Some (Inr False)"
    by (rule verifyPassword_produced_long) (simp_all add: sha256_lower)
  have s: "map_option (map_sum id isValid)
      (verifyPasswordSecure demoParse 10 12 (str ''testpassword123'') ?cred) = Some (Inr False)"
    using v by (simp add: isValid_eq_verifyPassword)
  show ?thesis using l h v s by blast
qed

end
